theory Spec2Isabelle
  imports Complex_Main "HOL-Library.Sublist"
begin

section \<open>scripts/prewarm\_guilds.py: data\<close>

text \<open>
  The value \<open>json.loads\<close> returns. Python's \<open>None\<close> is \<open>JNull\<close>, so a payload
  \<open>null\<close> and the \<open>None\<close> the fetcher returns for a missing body are the same value,
  as they are in the program. A dict is the list of its items in insertion order. JSON
  numbers with a fraction or an exponent (Python floats) are outside the model.
\<close>

datatype json =
    JNull
  | JBool bool
  | JInt int
  | JStr string
  | JArr "json list"
  | JObj "(string \<times> json) list"

text \<open>Python's truth value of a JSON value (\<open>not x\<close>, \<open>x or []\<close>, \<open>if x:\<close>).\<close>

fun truthy :: "json \<Rightarrow> bool" where
  "truthy JNull = False"
| "truthy (JBool b) = b"
| "truthy (JInt i) = (i \<noteq> 0)"
| "truthy (JStr s) = (s \<noteq> [])"
| "truthy (JArr xs) = (xs \<noteq> [])"
| "truthy (JObj kvs) = (kvs \<noteq> [])"

text \<open>The exceptions that the program lets through.\<close>

datatype pyerr = AttributeError | TypeError | ValueError | OverflowError | OSError

text \<open>
  A URL as \<open>build_url\<close> assembles it: the base with its trailing slashes stripped, the
  path and the query parameters. The percent-encoding of \<open>urlencode\<close> is not modelled;
  the parameters stay a list of pairs.
\<close>

record url =
  u_base :: string
  u_path :: string
  u_params :: "(string \<times> string) list"

text \<open>
  What one call of \<open>urllib.request.urlopen\<close> does inside \<open>http_get_json\<close>:
  it returns a response (status, and the payload as \<open>resp.read().decode("utf-8")\<close>
  gives it, \<open>None\<close> when reading or decoding raises), it raises \<open>HTTPError\<close> (code,
  and the payload of \<open>e.read().decode("utf-8")\<close>, \<open>None\<close> when that raises), or it
  raises anything else.
\<close>

datatype http_event =
    Response int "string option"
  | HTTPError int "string option"
  | Failure

text \<open>
  The effects of the program, in the order they happen: a GET request that was sent, a
  call of \<open>time.sleep\<close> that returned, with its argument (seconds; a real number stands
  for a Python float that is a number), and a file written with its whole content.
  Writing a file is taken to succeed. The \<open>print\<close> lines are not modelled.
\<close>

datatype event =
    is_Request: Request url
  | Sleep real
  | Write string string

definition nreq :: "event list \<Rightarrow> nat" where
  "nreq tr = length (filter is_Request tr)"

text \<open>
  The world outside the program.
  \<^item> \<open>json.loads\<close>, \<open>None\<close> when it raises.
  \<^item> The network, which answers the n-th request of the run (counted from 0) for a URL.
  \<^item> \<open>urllib.request.Request(url)\<close>, which raises \<open>ValueError\<close> for a URL it cannot
    take apart (one without a scheme). The call stands before the \<open>try\<close> of
    \<open>http_get_json\<close>, so nothing catches it.
  \<^item> \<open>time.sleep\<close>, which raises for an argument it does not accept (\<open>ValueError\<close>
    for a negative one, \<open>OverflowError\<close> or \<open>OSError\<close> for one beyond what the clock
    of the platform holds) and returns otherwise: \<open>None\<close> is the call that returns.
    No call of \<open>time.sleep\<close> in the program stands inside a \<open>try\<close>.
  \<^item> The product of two floats, which is the product of the numbers rounded to a float.
    The delays are floats that are numbers: \<open>inf\<close> and \<open>nan\<close> are outside the model.
\<close>

type_synonym loads = "string \<Rightarrow> json option"
type_synonym net = "nat \<Rightarrow> url \<Rightarrow> http_event"

record world =
  json_loads :: loads
  urlopen :: net
  request_raises :: "url \<Rightarrow> bool"
  time_sleep :: "real \<Rightarrow> pyerr option"
  float_mul :: "real \<Rightarrow> real \<Rightarrow> real"

record args =
  base_url :: string
  region :: string
  delay :: real
  max_attempts :: int
  throttle :: real
  warm_search :: bool

section \<open>scripts/prewarm\_guilds.py: functions\<close>

definition GUILDS :: "string list" where
  "GUILDS = [''Mythic'', ''RAW'', ''Control'', ''Insecure'', ''Ace'', ''Demise'', ''Fall'',
     ''Yeah'', ''Orca'', ''Armbrows'', ''Combat'', ''Cold'', ''Ruin'', ''Act'', ''Dominate'',
     ''BLNK'', ''RAT'', ''Deported'', ''Necrotic'', ''Bliss'', ''Ecchi_Squad'', ''Carrots'',
     ''BugCat'', ''Skill_Issue'', ''ManshaSlayers'']"

text \<open>
  \<open>http_get_json\<close>, given what \<open>urlopen\<close> did. The result is the triple
  (status, data, raw). The last \<open>except Exception\<close> also catches what the body of the
  \<open>with\<close> block raises: a payload that cannot be read or decoded, and a
  \<open>json.loads\<close> that fails.
\<close>

definition http_get_json :: "loads \<Rightarrow> http_event \<Rightarrow> int \<times> json \<times> string" where
  "http_get_json L ev =
    (case ev of
       Response st None \<Rightarrow> (0, JNull, [])
     | Response st (Some body) \<Rightarrow>
         if body = [] then (st, JNull, [])
         else (case L body of
                 None \<Rightarrow> (0, JNull, [])
               | Some j \<Rightarrow> (st, j, []))
     | HTTPError code None \<Rightarrow> (code, JNull, [])
     | HTTPError code (Some body) \<Rightarrow>
         if body = [] then (code, JNull, body)
         else (case L body of
                 None \<Rightarrow> (code, JNull, [])
               | Some j \<Rightarrow> (code, j, body))
     | Failure \<Rightarrow> (0, JNull, []))"

text \<open>
  \<open>time.sleep(x)\<close> after the trace \<open>tr\<close>: the exception it raises, or the trace with
  the sleep.
\<close>

definition py_sleep :: "world \<Rightarrow> real \<Rightarrow> event list \<Rightarrow> pyerr + event list" where
  "py_sleep W x tr = (case time_sleep W x of Some e \<Rightarrow> Inl e | None \<Rightarrow> Inr (tr @ [Sleep x]))"

text \<open>
  The loop of \<open>wait_for_200\<close>, on the number of attempts that are left. The result is
  what the function returns, or the exception that leaves it, with the trace up to
  there. Every attempt calls \<open>http_get_json\<close>: its first line builds the request, which
  raises before anything is sent when the URL cannot be taken apart; otherwise one
  request is issued, and the answer is the network's for the number of requests issued
  so far. The label, the attempt number and \<open>last_status\<close> only feed the \<open>print\<close> lines
  and are left out with them.
\<close>

fun wait_loop :: "world \<Rightarrow> url \<Rightarrow> real \<Rightarrow> nat \<Rightarrow> event list \<Rightarrow> (pyerr + json) \<times> event list" where
  "wait_loop W u d 0 tr = (Inr JNull, tr)"
| "wait_loop W u d (Suc k) tr =
    (if request_raises W u then (Inl ValueError, tr)
     else
       (case http_get_json (json_loads W) (urlopen W (nreq tr) u) of (status, data, raw) \<Rightarrow>
          let tr1 = tr @ [Request u] in
          if status = 200 then (Inr data, tr1)
          else if status = 202 then
            (case py_sleep W d tr1 of
               Inl e \<Rightarrow> (Inl e, tr1)
             | Inr tr2 \<Rightarrow> wait_loop W u d k tr2)
          else if status = 429 then
            (case py_sleep W (max 5 (float_mul W d 2)) tr1 of
               Inl e \<Rightarrow> (Inl e, tr1)
             | Inr tr2 \<Rightarrow> wait_loop W u d k tr2)
          else if status \<in> {500, 503} \<or> status = 0 then
            (case py_sleep W (max 10 (float_mul W d 5)) tr1 of
               Inl e \<Rightarrow> (Inl e, tr1)
             | Inr tr2 \<Rightarrow> wait_loop W u d k tr2)
          else
            (case py_sleep W d tr1 of
               Inl e \<Rightarrow> (Inl e, tr1)
             | Inr tr2 \<Rightarrow> wait_loop W u d k tr2)))"

text \<open>\<open>range(1, max_attempts + 1)\<close> has \<open>nat max_attempts\<close> elements.\<close>

definition wait_for_200 :: "world \<Rightarrow> url \<Rightarrow> int \<Rightarrow> real \<Rightarrow> event list \<Rightarrow> (pyerr + json) \<times> event list" where
  "wait_for_200 W u m d tr = wait_loop W u d (nat m) tr"

definition rstrip_slash :: "string \<Rightarrow> string" where
  "rstrip_slash s = rev (dropWhile (\<lambda>c. c = CHR ''/'') (rev s))"

definition build_url :: "string \<Rightarrow> string \<Rightarrow> (string \<times> string) list \<Rightarrow> url" where
  "build_url base path params = \<lparr>u_base = rstrip_slash base, u_path = path, u_params = params\<rparr>"

text \<open>\<open>x.get(key)\<close>: only a dict has the method.\<close>

fun py_get :: "json \<Rightarrow> string \<Rightarrow> pyerr + json" where
  "py_get (JObj kvs) key = Inr (case map_of kvs key of None \<Rightarrow> JNull | Some v \<Rightarrow> v)"
| "py_get _ key = Inl AttributeError"

text \<open>\<open>for member in x\<close>: a list gives its elements, a dict its keys, a string its
  characters; nothing else can be iterated.\<close>

fun py_iter :: "json \<Rightarrow> pyerr + json list" where
  "py_iter (JArr xs) = Inr xs"
| "py_iter (JObj kvs) = Inr (map (\<lambda>kv. JStr (fst kv)) kvs)"
| "py_iter (JStr s) = Inr (map (\<lambda>c. JStr [c]) s)"
| "py_iter _ = Inl TypeError"

fun collect_loop :: "string \<Rightarrow> json list \<Rightarrow> json list \<Rightarrow> pyerr + json list" where
  "collect_loop key [] acc = Inr acc"
| "collect_loop key (member # members) acc =
    (case py_get member key of
       Inl e \<Rightarrow> Inl e
     | Inr v \<Rightarrow> collect_loop key members (if truthy v then acc @ [v] else acc))"

definition collect_field :: "string \<Rightarrow> json \<Rightarrow> pyerr + json list" where
  "collect_field key guild_json =
    (case py_get guild_json ''members'' of
       Inl e \<Rightarrow> Inl e
     | Inr m \<Rightarrow>
         (case py_iter (if truthy m then m else JArr []) of
            Inl e \<Rightarrow> Inl e
          | Inr members \<Rightarrow> collect_loop key members []))"

definition collect_profile_targets :: "json \<Rightarrow> pyerr + json list" where
  "collect_profile_targets guild_json = collect_field ''profileTarget'' guild_json"

definition collect_family_names :: "json \<Rightarrow> pyerr + json list" where
  "collect_family_names guild_json = collect_field ''familyName'' guild_json"

text \<open>
  \<open>re.fullmatch(r"[A-Za-z0-9_]{3,16}", query)\<close>: a character class by its ranges of
  code points, and the counted repetition matched against the whole string. A character
  is one of the 256 of \<open>char\<close>; a code point beyond them is in none of the ranges.
\<close>

definition in_range :: "char \<Rightarrow> char \<Rightarrow> char \<Rightarrow> bool" where
  "in_range lo hi c = ((of_char lo :: nat) \<le> of_char c \<and> (of_char c :: nat) \<le> of_char hi)"

definition word_class :: "char \<Rightarrow> bool" where
  "word_class c =
    (in_range CHR ''A'' CHR ''Z'' c \<or> in_range CHR ''a'' CHR ''z'' c \<or>
     in_range CHR ''0'' CHR ''9'' c \<or> c = CHR ''_'')"

fun fullmatch_repeat :: "(char \<Rightarrow> bool) \<Rightarrow> nat \<Rightarrow> nat \<Rightarrow> string \<Rightarrow> bool" where
  "fullmatch_repeat cls lo hi [] = (lo = 0)"
| "fullmatch_repeat cls lo hi (c # cs) = (0 < hi \<and> cls c \<and> fullmatch_repeat cls (lo - 1) (hi - 1) cs)"

definition is_valid_search_query :: "string \<Rightarrow> bool" where
  "is_valid_search_query query = fullmatch_repeat word_class 3 16 query"

text \<open>
  \<open>list(dict.fromkeys(xs))\<close>. A dict keeps its keys in the order of their first
  insertion: \<open>d[k] = v\<close> on a key the dict has replaces the value where it stands, on
  a new key it appends the item. \<open>dict.fromkeys\<close> stores \<open>None\<close> under every element
  in turn, and \<open>list\<close> reads the keys back.
\<close>

fun dict_setitem :: "('k \<times> 'v) list \<Rightarrow> 'k \<Rightarrow> 'v \<Rightarrow> ('k \<times> 'v) list" where
  "dict_setitem [] k v = [(k, v)]"
| "dict_setitem ((k', v') # d) k v =
    (if k' = k then (k', v) # d else (k', v') # dict_setitem d k v)"

definition dict_fromkeys :: "'k list \<Rightarrow> ('k \<times> unit) list" where
  "dict_fromkeys xs = foldl (\<lambda>d k. dict_setitem d k ()) [] xs"

definition dict_keys :: "('k \<times> 'v) list \<Rightarrow> 'k list" where
  "dict_keys d = map fst d"

definition unique :: "'k list \<Rightarrow> 'k list" where
  "unique xs = dict_keys (dict_fromkeys xs)"

text \<open>
  The first loop of \<open>main\<close>, over the guilds: one step is the body of the loop on the
  lists collected so far and the trace. An exception of the poll, of the extraction or
  of the throttle sleep ends the run.
\<close>

definition guild_url :: "args \<Rightarrow> string \<Rightarrow> url" where
  "guild_url a guild =
    build_url (base_url a) ''/v1/guild'' [(''guildName'', guild), (''region'', region a)]"

definition guild_step ::
  "world \<Rightarrow> args \<Rightarrow> string \<Rightarrow> json list \<times> json list \<times> event list
    \<Rightarrow> (pyerr + json list \<times> json list) \<times> event list" where
  "guild_step W a guild s =
    (case s of (all_profile_targets, all_family_names, tr) \<Rightarrow>
       (case wait_for_200 W (guild_url a guild) (max_attempts a) (delay a) tr of
          (Inl e, tr1) \<Rightarrow> (Inl e, tr1)
        | (Inr guild_json, tr1) \<Rightarrow>
            if \<not> truthy guild_json then (Inr (all_profile_targets, all_family_names), tr1)
            else
              (case collect_profile_targets guild_json of
                 Inl e \<Rightarrow> (Inl e, tr1)
               | Inr profile_targets \<Rightarrow>
                   (case collect_family_names guild_json of
                      Inl e \<Rightarrow> (Inl e, tr1)
                    | Inr family_names \<Rightarrow>
                        (case py_sleep W (throttle a) tr1 of
                           Inl e \<Rightarrow> (Inl e, tr1)
                         | Inr tr2 \<Rightarrow>
                             (Inr (all_profile_targets @ profile_targets,
                                   all_family_names @ family_names), tr2))))))"

fun guild_loop ::
  "world \<Rightarrow> args \<Rightarrow> string list \<Rightarrow> json list \<times> json list \<times> event list
    \<Rightarrow> (pyerr + json list \<times> json list) \<times> event list" where
  "guild_loop W a [] s = (case s of (all_profile_targets, all_family_names, tr) \<Rightarrow>
     (Inr (all_profile_targets, all_family_names), tr))"
| "guild_loop W a (guild # guilds) s =
    (case guild_step W a guild s of
       (Inl e, tr1) \<Rightarrow> (Inl e, tr1)
     | (Inr (all_profile_targets, all_family_names), tr1) \<Rightarrow>
         guild_loop W a guilds (all_profile_targets, all_family_names, tr1))"

definition main_guilds :: "world \<Rightarrow> args \<Rightarrow> (pyerr + json list \<times> json list) \<times> event list" where
  "main_guilds W a = guild_loop W a GUILDS ([], [], [])"

text \<open>
  The warming loops of \<open>main\<close>, on identifiers that are strings (the \<open>List[str]\<close> the
  source declares). The state is the list of failures and the trace; the result is the
  list of failures, or the exception that ends the run, with the trace.
\<close>

definition adventurer_url :: "args \<Rightarrow> string \<Rightarrow> url" where
  "adventurer_url a profile_target =
    build_url (base_url a) ''/v1/adventurer''
      [(''profileTarget'', profile_target), (''region'', region a)]"

definition search_url :: "args \<Rightarrow> string \<Rightarrow> url" where
  "search_url a family_name =
    build_url (base_url a) ''/v1/adventurer/search''
      [(''query'', family_name), (''searchType'', ''familyName''), (''region'', region a)]"

fun profile_loop ::
  "world \<Rightarrow> args \<Rightarrow> string list \<Rightarrow> string list \<times> event list
    \<Rightarrow> (pyerr + string list) \<times> event list" where
  "profile_loop W a [] s = (case s of (failed_profile_targets, tr) \<Rightarrow>
     (Inr failed_profile_targets, tr))"
| "profile_loop W a (profile_target # rest) s =
    (case s of (failed_profile_targets, tr) \<Rightarrow>
       (case wait_for_200 W (adventurer_url a profile_target) (max_attempts a) (delay a) tr of
          (Inl e, tr1) \<Rightarrow> (Inl e, tr1)
        | (Inr result, tr1) \<Rightarrow>
            (case py_sleep W (throttle a) tr1 of
               Inl e \<Rightarrow> (Inl e, tr1)
             | Inr tr2 \<Rightarrow>
                 profile_loop W a rest
                   (if result = JNull then failed_profile_targets @ [profile_target]
                    else failed_profile_targets,
                    tr2))))"

fun search_loop ::
  "world \<Rightarrow> args \<Rightarrow> string list \<Rightarrow> string list \<times> event list
    \<Rightarrow> (pyerr + string list) \<times> event list" where
  "search_loop W a [] s = (case s of (failed_searches, tr) \<Rightarrow> (Inr failed_searches, tr))"
| "search_loop W a (family_name # rest) s =
    (case s of (failed_searches, tr) \<Rightarrow>
       if \<not> is_valid_search_query family_name then search_loop W a rest s
       else
         (case wait_for_200 W (search_url a family_name) (max_attempts a) (delay a) tr of
            (Inl e, tr1) \<Rightarrow> (Inl e, tr1)
          | (Inr result, tr1) \<Rightarrow>
              (case py_sleep W (throttle a) tr1 of
                 Inl e \<Rightarrow> (Inl e, tr1)
               | Inr tr2 \<Rightarrow>
                   search_loop W a rest
                     (if result = JNull then failed_searches @ [family_name]
                      else failed_searches,
                      tr2))))"

definition write_lines :: "string \<Rightarrow> string list \<Rightarrow> event" where
  "write_lines name xs = Write name (concat (map (\<lambda>x. x @ [CHR 0x0A]) xs))"

text \<open>
  The second part of \<open>main\<close>: the profile targets of all guilds are deduplicated, every
  one is polled, and the failures are written when there are any. The result of a run
  that gets through is (unique\_profile\_targets, failed\_profile\_targets).
\<close>

definition main_profiles ::
  "world \<Rightarrow> args \<Rightarrow> string list \<Rightarrow> event list
    \<Rightarrow> (pyerr + string list \<times> string list) \<times> event list" where
  "main_profiles W a all_profile_targets tr =
    (let unique_profile_targets = unique all_profile_targets in
     case profile_loop W a unique_profile_targets ([], tr) of
       (Inl e, tr1) \<Rightarrow> (Inl e, tr1)
     | (Inr failed_profile_targets, tr1) \<Rightarrow>
         (Inr (unique_profile_targets, failed_profile_targets),
          if failed_profile_targets \<noteq> []
          then tr1 @ [write_lines ''failed_profiles.txt'' failed_profile_targets]
          else tr1))"

text \<open>The third part, under \<open>--warm-search\<close>: the same for the family names, behind
  the query validator.\<close>

definition main_search ::
  "world \<Rightarrow> args \<Rightarrow> string list \<Rightarrow> event list
    \<Rightarrow> (pyerr + string list \<times> string list) \<times> event list" where
  "main_search W a all_family_names tr =
    (if warm_search a then
       (let unique_family_names = unique all_family_names in
        case search_loop W a unique_family_names ([], tr) of
          (Inl e, tr1) \<Rightarrow> (Inl e, tr1)
        | (Inr failed_searches, tr1) \<Rightarrow>
            (Inr (unique_family_names, failed_searches),
             if failed_searches \<noteq> []
             then tr1 @ [write_lines ''failed_searches.txt'' failed_searches]
             else tr1))
     else (Inr ([], []), tr))"

section \<open>scripts/proxy\_filter.py\<close>

text \<open>
  \<open>fetch_proxy_list\<close> on the text of the source, with \<open>str.splitlines\<close> and
  \<open>str.strip\<close> of the Python library as parameters.
\<close>

definition fetch_proxy_list ::
  "(string \<Rightarrow> string list) \<Rightarrow> (string \<Rightarrow> string) \<Rightarrow> string \<Rightarrow> string list" where
  "fetch_proxy_list splitlines strip raw =
    map strip (filter (\<lambda>line. strip line \<noteq> []) (splitlines raw))"

text \<open>\<open>needle in haystack\<close> on strings.\<close>

fun contains :: "string \<Rightarrow> string \<Rightarrow> bool" where
  "contains needle [] = (needle = [])"
| "contains needle (c # cs) = (prefix needle (c # cs) \<or> contains needle cs)"

text \<open>
  What the probe through a proxy does: \<open>opener.open\<close> or \<open>resp.read\<close> raises, or there
  is a response with its status and the bytes of its body. \<open>resp.read(20000)\<close> gives the
  first 20000 of them. \<open>bytes.decode("utf-8", errors="ignore")\<close> and \<open>str.lower\<close> are
  parameters.
\<close>

datatype probe_event =
    ProbeRaised
  | ProbeResponse int string

definition test_proxy ::
  "(string \<Rightarrow> string) \<Rightarrow> (string \<Rightarrow> string) \<Rightarrow> probe_event \<Rightarrow> bool" where
  "test_proxy decode lower ev =
    (case ev of
       ProbeRaised \<Rightarrow> False
     | ProbeResponse status payload \<Rightarrow>
         let body = decode (take 20000 payload) in
         if status \<noteq> 200 then False
         else
           let lowered = lower body in
           if contains ''imperva'' lowered \<or> contains ''incapsula'' lowered \<or>
              contains ''<iframe'' lowered
           then False
           else length body > 500)"

datatype pevent =
    is_Probe: Probe string
  | PSleep real
  | PWrite string string

definition nprobe :: "pevent list \<Rightarrow> nat" where
  "nprobe tr = length (filter is_Probe tr)"

record pargs =
  limit :: int
  sleep :: real
  out :: string

text \<open>
  The loop of \<open>main\<close> over the candidates. The state is (tested, working, trace); the
  n-th probe of the run, through a proxy, gets the event the world \<open>P\<close> gives, and
  \<open>S\<close> is \<open>time.sleep\<close>: the exception it raises for an argument, \<open>None\<close> when it
  returns. The result is the exception that ends the loop, if there is one, and the
  state reached.
\<close>

fun probe_loop ::
  "(string \<Rightarrow> string) \<Rightarrow> (string \<Rightarrow> string) \<Rightarrow> (nat \<Rightarrow> string \<Rightarrow> probe_event)
    \<Rightarrow> (real \<Rightarrow> pyerr option) \<Rightarrow> pargs \<Rightarrow> string list \<Rightarrow> int \<times> string list \<times> pevent list
    \<Rightarrow> pyerr option \<times> int \<times> string list \<times> pevent list" where
  "probe_loop decode lower P S a [] s = (None, s)"
| "probe_loop decode lower P S a (proxy # rest) s =
    (case s of (tested, working, tr) \<Rightarrow>
       if tested \<ge> limit a then (None, s)
       else
         let ok = test_proxy decode lower (P (nprobe tr) proxy);
             working1 = (if ok then working @ [proxy] else working);
             tr1 = tr @ [Probe proxy]
         in (case S (sleep a) of
               Some e \<Rightarrow> (Some e, tested + 1, working1, tr1)
             | None \<Rightarrow>
                 probe_loop decode lower P S a rest
                   (tested + 1, working1, tr1 @ [PSleep (sleep a)])))"

text \<open>How the process ends: \<open>main\<close> returns, \<open>sys.exit(n)\<close>, or an exception nobody
  catches; and the exit status the interpreter gives each.\<close>

datatype ending = Returned | SysExit int | Uncaught


text \<open>\<open>"\n".join(xs)\<close>.\<close>

definition join_lines :: "string list \<Rightarrow> string" where
  "join_lines xs = (case xs of [] \<Rightarrow> [] | x # ys \<Rightarrow> x @ concat (map (\<lambda>y. CHR 0x0A # y) ys))"

text \<open>
  \<open>main\<close> of the proxy filter. \<open>fetched\<close> is the text \<open>fetch_proxy_list\<close> downloads,
  \<open>None\<close> when the download raises, which nothing catches; nothing catches what
  \<open>time.sleep\<close> raises in the loop either.
\<close>

definition proxy_filter_main ::
  "(string \<Rightarrow> string list) \<Rightarrow> (string \<Rightarrow> string) \<Rightarrow> (string \<Rightarrow> string) \<Rightarrow> (string \<Rightarrow> string)
    \<Rightarrow> (nat \<Rightarrow> string \<Rightarrow> probe_event) \<Rightarrow> (real \<Rightarrow> pyerr option) \<Rightarrow> pargs \<Rightarrow> string option
    \<Rightarrow> ending \<times> pevent list" where
  "proxy_filter_main splitlines strip decode lower P S a fetched =
    (case fetched of
       None \<Rightarrow> (Uncaught, [])
     | Some raw \<Rightarrow>
         let proxies = fetch_proxy_list splitlines strip raw in
         if proxies = [] then (SysExit 1, [])
         else
           (case probe_loop decode lower P S a proxies (0, [], []) of
              (Some e, tested, working, tr) \<Rightarrow> (Uncaught, tr)
            | (None, tested, working, tr) \<Rightarrow>
                if working \<noteq> []
                then (Returned, tr @ [PWrite (out a) (join_lines working @ [CHR 0x0A])])
                else (SysExit 2, tr)))"

section \<open>The specification's notions\<close>

text \<open>The characters of the class \<open>[A-Za-z0-9_]\<close>, written out.\<close>

definition alphabet :: string where
  "alphabet = ''ABCDEFGHIJKLMNOPQRSTUVWXYZabcdefghijklmnopqrstuvwxyz0123456789_''"

text \<open>The sub-sequence of first occurrences: the elements at the positions where the
  element has not appeared before.\<close>

definition first_occurrences :: "'a list \<Rightarrow> 'a list" where
  "first_occurrences xs =
    map (\<lambda>i. xs ! i) (filter (\<lambda>i. xs ! i \<notin> set (take i xs)) [0..<length xs])"

text \<open>The delay the specification's table gives for a status that is not 200; its
  products are products of floats.\<close>

definition backoff :: "world \<Rightarrow> real \<Rightarrow> int \<Rightarrow> real" where
  "backoff W d s =
    (if s = 202 then d
     else if s = 429 then max 5 (float_mul W d 2)
     else if s = 500 \<or> s = 503 \<or> s = 0 then max 10 (float_mul W d 5)
     else d)"

text \<open>
  The outcome of the i-th attempt (from 0) of a poll that starts after the trace \<open>tr\<close>:
  what \<open>http_get_json\<close> returns for it, its status and its body.
\<close>

definition attempt :: "world \<Rightarrow> url \<Rightarrow> event list \<Rightarrow> nat \<Rightarrow> int \<times> json \<times> string" where
  "attempt W u tr i = http_get_json (json_loads W) (urlopen W (nreq tr + i) u)"

definition attempt_status :: "world \<Rightarrow> url \<Rightarrow> event list \<Rightarrow> nat \<Rightarrow> int" where
  "attempt_status W u tr i = fst (attempt W u tr i)"

definition attempt_body :: "world \<Rightarrow> url \<Rightarrow> event list \<Rightarrow> nat \<Rightarrow> json" where
  "attempt_body W u tr i = fst (snd (attempt W u tr i))"

text \<open>The delay slept after the i-th attempt, when its status is not 200.\<close>

definition attempt_delay :: "world \<Rightarrow> url \<Rightarrow> real \<Rightarrow> event list \<Rightarrow> nat \<Rightarrow> real" where
  "attempt_delay W u d tr i = backoff W d (attempt_status W u tr i)"

text \<open>The effects of k attempts that did not succeed: each a request, then the sleep of
  the table for its status.\<close>

definition poll_steps :: "world \<Rightarrow> url \<Rightarrow> real \<Rightarrow> event list \<Rightarrow> nat \<Rightarrow> event list" where
  "poll_steps W u d tr k =
    concat (map (\<lambda>i. [Request u, Sleep (attempt_delay W u d tr i)]) [0..<k])"

text \<open>The outcome the specification gives for a received response: the code, the parsed
  payload when it is not empty and parses, and the payload as the raw text.\<close>

definition parsed_body :: "loads \<Rightarrow> string \<Rightarrow> json" where
  "parsed_body L payload =
    (if payload \<noteq> [] then (case L payload of Some j \<Rightarrow> j | None \<Rightarrow> JNull) else JNull)"

definition spec_outcome :: "loads \<Rightarrow> int \<Rightarrow> string \<Rightarrow> int \<times> json \<times> string" where
  "spec_outcome L code payload = (code, parsed_body L payload, payload)"

section \<open>Example worlds\<close>

text \<open>A \<open>json.loads\<close> on three payloads, failing on every other text.\<close>

definition demo_loads :: loads where
  "demo_loads s =
    (if s = ''{}'' then Some (JObj [])
     else if s = ''null'' then Some JNull
     else if s = ''[1]'' then Some (JArr [JInt 1])
     else None)"

definition demo_url :: url where
  "demo_url = build_url ''http://localhost:8001/'' ''/v1/guild''
     [(''guildName'', ''Mythic''), (''region'', ''EU'')]"

text \<open>A network that answers 202, 429, 503, 404, no connection, and 200 from then on.\<close>

definition demo_net :: net where
  "demo_net n u =
    (if n = 0 then Response 202 (Some [])
     else if n = 1 then HTTPError 429 (Some [])
     else if n = 2 then HTTPError 503 None
     else if n = 3 then HTTPError 404 (Some ''not found'')
     else if n = 4 then Failure
     else Response 200 (Some ''{}''))"

text \<open>A network that answers every request with 200 and an empty payload.\<close>

definition empty_200_net :: net where
  "empty_200_net n u = Response 200 (Some [])"

text \<open>
  \<open>time.sleep\<close> on the arguments of the examples: it raises \<open>ValueError\<close> on a negative
  one and returns on the others, which are small.
\<close>

definition demo_sleep :: "real \<Rightarrow> pyerr option" where
  "demo_sleep x = (if x < 0 then Some ValueError else None)"

text \<open>
  A world over a network. \<open>Request\<close> raises on a URL whose base has no colon, which
  has no scheme, and not on the URLs of the examples that have one; the products of
  the examples are floats, so nothing is rounded.
\<close>

definition demo_world :: "net \<Rightarrow> world" where
  "demo_world N =
    \<lparr>json_loads = demo_loads, urlopen = N,
     request_raises = (\<lambda>u. CHR '':'' \<notin> set (u_base u)),
     time_sleep = demo_sleep, float_mul = (\<lambda>x y. x * y)\<rparr>"

text \<open>The URLs a trace requests, in order.\<close>

definition requested :: "event list \<Rightarrow> url list" where
  "requested tr = concat (map (\<lambda>e. case e of Request u \<Rightarrow> [u] | _ \<Rightarrow> []) tr)"

text \<open>Arguments with two attempts per poll, the search warming switched on; and a
  guild URL over a base that has no scheme.\<close>

definition demo_args :: args where
  "demo_args = \<lparr>base_url = ''http://localhost:8001'', region = ''EU'', delay = 2,
     max_attempts = 2, throttle = 1 / 5, warm_search = True\<rparr>"

definition no_scheme_url :: url where
  "no_scheme_url = build_url ''localhost/'' ''/v1/guild''
     [(''guildName'', ''Mythic''), (''region'', ''EU'')]"

text \<open>Networks that answer every request alike: 200 with the payload \<open>{}\<close>, and 404;
  and one that answers 202 once and 200 with the payload \<open>[1]\<close> from then on.\<close>

definition empty_object_net :: net where
  "empty_object_net n u = Response 200 (Some ''{}'')"

definition not_found_net :: net where
  "not_found_net n u = HTTPError 404 (Some [])"

definition busy_once_net :: net where
  "busy_once_net n u = (if n = 0 then Response 202 (Some []) else Response 200 (Some ''[1]''))"

section \<open>The proxy filter: notions and example worlds\<close>

text \<open>The proxies a trace probes, in order.\<close>

definition probed :: "pevent list \<Rightarrow> string list" where
  "probed tr = concat (map (\<lambda>e. case e of Probe p \<Rightarrow> [p] | _ \<Rightarrow> []) tr)"

text \<open>The candidates of a list that pass the validator, when the first of them is
  the i-th probe of the run.\<close>

fun survivors_from ::
  "(string \<Rightarrow> string) \<Rightarrow> (string \<Rightarrow> string) \<Rightarrow> (nat \<Rightarrow> string \<Rightarrow> probe_event) \<Rightarrow> nat
    \<Rightarrow> string list \<Rightarrow> string list" where
  "survivors_from decode lower P i [] = []"
| "survivors_from decode lower P i (x # xs) =
    (if test_proxy decode lower (P i x) then [x] else []) @
    survivors_from decode lower P (Suc i) xs"

text \<open>The effects of probing a list of candidates: each a probe, then the throttle.\<close>

definition probe_steps :: "pargs \<Rightarrow> string list \<Rightarrow> pevent list" where
  "probe_steps a xs = concat (map (\<lambda>x. [Probe x, PSleep (sleep a)]) xs)"

text \<open>Decoding and lower-casing on ASCII text, for the examples.\<close>

definition ascii_decode :: "string \<Rightarrow> string" where
  "ascii_decode bs = bs"

definition ascii_lower :: "string \<Rightarrow> string" where
  "ascii_lower s =
    map (\<lambda>c. case map_of (zip ''ABCDEFGHIJKLMNOPQRSTUVWXYZ'' ''abcdefghijklmnopqrstuvwxyz'') c of
              None \<Rightarrow> c | Some l \<Rightarrow> l) s"

text \<open>A world where the proxy \<open>good\<close> returns a page of 501 bytes and every other
  probe raises; and candidate sources of five lines and of none.\<close>

definition demo_probe :: "nat \<Rightarrow> string \<Rightarrow> probe_event" where
  "demo_probe n proxy =
    (if proxy = ''good'' then ProbeResponse 200 (replicate 501 CHR ''a'') else ProbeRaised)"

definition five_lines :: "string \<Rightarrow> string list" where
  "five_lines raw = [''p1'', ''good'', ''p3'', ''good'', ''p5'']"

definition no_lines :: "string \<Rightarrow> string list" where
  "no_lines raw = []"

definition keep :: "string \<Rightarrow> string" where
  "keep s = s"

definition demo_pargs :: "int \<Rightarrow> pargs" where
  "demo_pargs n = \<lparr>limit = n, sleep = 1 / 5, out = ''working_proxies.txt''\<rparr>"

text \<open>A candidate source whose first line is the proxy that works.\<close>

definition good_first :: "string \<Rightarrow> string list" where
  "good_first raw = [''good'', ''p2'', ''p3'']"

text \<open>Arguments with a negative delay between the probes.\<close>

definition negative_sleep_pargs :: "int \<Rightarrow> pargs" where
  "negative_sleep_pargs n = \<lparr>limit = n, sleep = - 1, out = ''working_proxies.txt''\<rparr>"

section \<open>Properties\<close>

subsection \<open>Query validator\<close>

lemma fullmatch_repeat_iff:
  "fullmatch_repeat cls lo hi s \<longleftrightarrow> lo \<le> length s \<and> length s \<le> hi \<and> (\<forall>c\<in>set s. cls c)"
  by (induction s arbitrary: lo hi) auto

lemma word_class_alphabet: "word_class c \<longleftrightarrow> c \<in> set alphabet"
  by (cases c) (simp add: word_class_def in_range_def alphabet_def)

lemma is_valid_search_query_iff:
  "is_valid_search_query q \<longleftrightarrow> 3 \<le> length q \<and> length q \<le> 16 \<and> set q \<subseteq> set alphabet"
  by (auto simp: is_valid_search_query_def fullmatch_repeat_iff word_class_alphabet)

text \<open>
  C7. A string is accepted by the query validator if and only if it has between 3 and
  16 characters and every one of them is in the class \<open>[A-Za-z0-9_]\<close>: the whole string
  is matched, so a space anywhere, also in front or behind, rejects it. \<open>abc\<close>, sixteen
  \<open>a\<close> and \<open>John_123\<close> are valid; \<open>ab\<close>, seventeen \<open>a\<close> and \<open>john doe\<close> are not.
\<close>

theorem is_valid_search_query_spec:
  "(is_valid_search_query q \<longleftrightarrow> 3 \<le> length q \<and> length q \<le> 16 \<and> set q \<subseteq> set alphabet) \<and>
   is_valid_search_query ''abc'' \<and>
   is_valid_search_query (replicate 16 CHR ''a'') \<and>
   is_valid_search_query ''John_123'' \<and>
   \<not> is_valid_search_query ''ab'' \<and>
   \<not> is_valid_search_query (replicate 17 CHR ''a'') \<and>
   \<not> is_valid_search_query ''john doe''"
proof -
  have "is_valid_search_query ''abc''"
    by (simp add: is_valid_search_query_def word_class_def in_range_def)
  moreover have "is_valid_search_query (replicate 16 CHR ''a'')"
    by (simp add: is_valid_search_query_def fullmatch_repeat_iff word_class_def in_range_def)
  moreover have "is_valid_search_query ''John_123''"
    by (simp add: is_valid_search_query_def word_class_def in_range_def)
  moreover have "\<not> is_valid_search_query ''ab''"
    by (simp add: is_valid_search_query_def)
  moreover have "\<not> is_valid_search_query (replicate 17 CHR ''a'')"
    by (simp add: is_valid_search_query_def fullmatch_repeat_iff)
  moreover have "\<not> is_valid_search_query ''john doe''"
    by (simp add: is_valid_search_query_def word_class_def in_range_def)
  ultimately show ?thesis
    using is_valid_search_query_iff [of q] by blast
qed

subsection \<open>Deduplication\<close>

lemma dict_keys_setitem:
  "dict_keys (dict_setitem d k v) =
    (if k \<in> set (dict_keys d) then dict_keys d else dict_keys d @ [k])"
proof (induction d)
  case Nil
  show ?case by (simp add: dict_keys_def)
next
  case (Cons kv d)
  obtain k' v' where kv: "kv = (k', v')" by (cases kv)
  show ?case
  proof (cases "k' = k")
    case True
    then show ?thesis by (simp add: kv dict_keys_def)
  next
    case False
    then show ?thesis using Cons by (simp add: kv dict_keys_def)
  qed
qed

lemma set_dict_keys_setitem:
  "set (dict_keys (dict_setitem d k v)) = insert k (set (dict_keys d))"
  by (auto simp: dict_keys_setitem)

lemma dict_fromkeys_snoc:
  "dict_fromkeys (xs @ [x]) = dict_setitem (dict_fromkeys xs) x ()"
  by (simp add: dict_fromkeys_def)

lemma unique_Nil: "unique [] = []"
  by (simp add: unique_def dict_fromkeys_def dict_keys_def)

lemma set_unique: "set (unique xs) = set xs"
proof (induction xs rule: rev_induct)
  case Nil
  show ?case by (simp add: unique_Nil)
next
  case (snoc x xs)
  then show ?case by (simp add: unique_def dict_fromkeys_snoc set_dict_keys_setitem)
qed

lemma unique_snoc:
  "unique (xs @ [x]) = (if x \<in> set xs then unique xs else unique xs @ [x])"
  using set_unique [of xs] by (simp add: unique_def dict_fromkeys_snoc dict_keys_setitem)

lemma first_occurrences_snoc:
  "first_occurrences (xs @ [x]) =
    (if x \<in> set xs then first_occurrences xs else first_occurrences xs @ [x])"
proof -
  have a: "filter (\<lambda>i. (xs @ [x]) ! i \<notin> set (take i (xs @ [x]))) [0..<length xs]
      = filter (\<lambda>i. xs ! i \<notin> set (take i xs)) [0..<length xs]"
    by (rule filter_cong) (auto simp: nth_append)
  have b: "map (\<lambda>i. (xs @ [x]) ! i) (filter (\<lambda>i. xs ! i \<notin> set (take i xs)) [0..<length xs])
      = map (\<lambda>i. xs ! i) (filter (\<lambda>i. xs ! i \<notin> set (take i xs)) [0..<length xs])"
    by (rule map_cong) (auto simp: nth_append)
  have c: "take (length xs) (xs @ [x]) = xs"
    by simp
  show ?thesis
    by (simp add: first_occurrences_def a b c del: take_append)
qed

lemma unique_first_occurrences: "unique xs = first_occurrences xs"
proof (induction xs rule: rev_induct)
  case Nil
  show ?case by (simp add: unique_Nil first_occurrences_def)
next
  case (snoc x xs)
  then show ?case by (simp add: unique_snoc first_occurrences_snoc)
qed

lemma distinct_unique: "distinct (unique xs)"
  by (induction xs rule: rev_induct) (simp_all add: unique_snoc unique_Nil set_unique)

lemma subseq_unique: "subseq (unique xs) xs"
proof (induction xs rule: rev_induct)
  case Nil
  show ?case by (simp add: unique_Nil)
next
  case (snoc x xs)
  show ?case
  proof (cases "x \<in> set xs")
    case True
    then show ?thesis using snoc by (simp add: unique_snoc subseq_rev_drop_many list_emb_append2)
  next
    case False
    then show ?thesis using snoc by (simp add: unique_snoc)
  qed
qed

lemma count_unique: "count_list (unique xs) x = (if x \<in> set xs then 1 else 0)"
proof -
  have "distinct ys \<Longrightarrow> count_list ys x = (if x \<in> set ys then 1 else 0)" for ys :: "'a list"
    by (induction ys) auto
  from this [OF distinct_unique [of xs]] show ?thesis
    by (simp add: set_unique)
qed

text \<open>
  C6. For every sequence of strings, also the empty one and one with repeats,
  \<open>list(dict.fromkeys(xs))\<close> is the sub-sequence of first occurrences: it is the
  elements at the positions where an element appears for the first time, in that order;
  it has no element twice; it has every element of the input, exactly once, and nothing
  else; and it is a sub-sequence of the input.
\<close>

theorem unique_spec:
  fixes xs :: "string list"
  shows "unique xs = first_occurrences xs \<and> distinct (unique xs) \<and> set (unique xs) = set xs \<and>
    count_list (unique xs) x = (if x \<in> set xs then 1 else 0) \<and> subseq (unique xs) xs"
  by (simp only: unique_first_occurrences [symmetric] distinct_unique set_unique count_unique
        subseq_unique simp_thms)

subsection \<open>Backoff polling engine\<close>

lemma nreq_append: "nreq (xs @ ys) = nreq xs + nreq ys"
  by (simp add: nreq_def)

lemma nreq_simps: "nreq [] = 0" "nreq (Request u # tr) = Suc (nreq tr)"
  "nreq (Sleep r # tr) = nreq tr" "nreq (Write f c # tr) = nreq tr"
  by (simp_all add: nreq_def)

lemma poll_steps_0: "poll_steps W u d tr 0 = []"
  by (simp add: poll_steps_def)

lemma poll_steps_Suc:
  "poll_steps W u d tr (Suc k) =
    poll_steps W u d tr k @ [Request u, Sleep (attempt_delay W u d tr k)]"
  by (simp add: poll_steps_def)

lemma nreq_poll_steps: "nreq (poll_steps W u d tr k) = k"
  by (induction k) (simp_all add: poll_steps_0 poll_steps_Suc nreq_append nreq_simps)

lemma attempt_after_steps:
  "attempt W u (tr @ poll_steps W u d tr k) i = attempt W u tr (k + i)"
  by (simp add: attempt_def nreq_append nreq_poll_steps add.assoc)

text \<open>One attempt of the loop: the request cannot be built, the attempt succeeds, the
  sleep of the table raises, or the loop goes on after it.\<close>

lemma wait_loop_bad:
  "request_raises W u \<Longrightarrow> wait_loop W u d (Suc n) tr = (Inl ValueError, tr)"
  by simp

lemma wait_loop_Suc:
  assumes "\<not> request_raises W u"
  shows "wait_loop W u d (Suc n) tr =
    (if attempt_status W u tr 0 = 200 then (Inr (attempt_body W u tr 0), tr @ [Request u])
     else
       (case py_sleep W (attempt_delay W u d tr 0) (tr @ [Request u]) of
          Inl e \<Rightarrow> (Inl e, tr @ [Request u])
        | Inr tr2 \<Rightarrow> wait_loop W u d n tr2))"
  using assms
  by (cases "http_get_json (json_loads W) (urlopen W (nreq tr) u)")
     (simp add: attempt_delay_def attempt_status_def attempt_body_def attempt_def backoff_def
        Let_def)

lemma wait_loop_hit:
  assumes "\<not> request_raises W u" and "attempt_status W u tr 0 = 200"
  shows "wait_loop W u d (Suc n) tr = (Inr (attempt_body W u tr 0), tr @ [Request u])"
  using assms(2) by (simp add: wait_loop_Suc [OF assms(1)] del: wait_loop.simps)

lemma wait_loop_step:
  assumes "\<not> request_raises W u" and "attempt_status W u tr 0 \<noteq> 200"
    and "time_sleep W (attempt_delay W u d tr 0) = None"
  shows "wait_loop W u d (Suc n) tr =
    wait_loop W u d n (tr @ [Request u, Sleep (attempt_delay W u d tr 0)])"
  using assms(2,3) by (simp add: wait_loop_Suc [OF assms(1)] py_sleep_def del: wait_loop.simps)

lemma wait_loop_raise:
  assumes "\<not> request_raises W u" and "attempt_status W u tr 0 \<noteq> 200"
    and "time_sleep W (attempt_delay W u d tr 0) = Some e"
  shows "wait_loop W u d (Suc n) tr = (Inl e, tr @ [Request u])"
  using assms(2,3) by (simp add: wait_loop_Suc [OF assms(1)] py_sleep_def del: wait_loop.simps)

text \<open>The loop after k attempts that did not succeed and whose sleeps returned.\<close>

lemma wait_loop_prefix:
  assumes "\<not> request_raises W u" and "k \<le> n"
    and "\<And>i. i < k \<Longrightarrow> attempt_status W u tr i \<noteq> 200 \<and>
           time_sleep W (attempt_delay W u d tr i) = None"
  shows "wait_loop W u d n tr = wait_loop W u d (n - k) (tr @ poll_steps W u d tr k)"
  using assms(2,3)
proof (induction k)
  case 0
  show ?case by (simp add: poll_steps_0)
next
  case (Suc k)
  let ?tr = "tr @ poll_steps W u d tr k"
  have s: "attempt_status W u ?tr 0 = attempt_status W u tr k"
    by (simp add: attempt_status_def attempt_after_steps)
  have dl: "attempt_delay W u d ?tr 0 = attempt_delay W u d tr k"
    by (simp add: attempt_delay_def s)
  have n: "n - k = Suc (n - Suc k)"
    using Suc.prems(1) by simp
  have k: "attempt_status W u tr k \<noteq> 200 \<and> time_sleep W (attempt_delay W u d tr k) = None"
    using Suc.prems(2) [of k] by simp
  have "wait_loop W u d n tr = wait_loop W u d (n - k) ?tr"
    by (rule Suc.IH) (use Suc.prems in simp_all)
  also have "\<dots> = wait_loop W u d (n - Suc k) (?tr @ [Request u, Sleep (attempt_delay W u d ?tr 0)])"
    unfolding n by (rule wait_loop_step) (use assms(1) k s dl in simp_all)
  finally show ?case
    by (simp add: poll_steps_Suc dl)
qed

lemma wait_loop_exhausted:
  assumes "\<not> request_raises W u"
    and "\<And>i. i < n \<Longrightarrow> attempt_status W u tr i \<noteq> 200 \<and>
           time_sleep W (attempt_delay W u d tr i) = None"
  shows "wait_loop W u d n tr = (Inr JNull, tr @ poll_steps W u d tr n)"
  using wait_loop_prefix [OF assms(1) order_refl assms(2), of n] by simp

lemma wait_loop_success:
  assumes "\<not> request_raises W u" and "k < n"
    and "\<And>i. i < k \<Longrightarrow> attempt_status W u tr i \<noteq> 200 \<and>
           time_sleep W (attempt_delay W u d tr i) = None"
    and "attempt_status W u tr k = 200"
  shows "wait_loop W u d n tr =
     (Inr (attempt_body W u tr k), tr @ poll_steps W u d tr k @ [Request u])"
proof -
  let ?tr = "tr @ poll_steps W u d tr k"
  obtain n' where n: "n - k = Suc n'"
    using assms(2) by (cases "n - k") auto
  have s: "attempt_status W u ?tr 0 = 200"
    using assms(4) by (simp add: attempt_status_def attempt_after_steps)
  have b: "attempt_body W u ?tr 0 = attempt_body W u tr k"
    by (simp add: attempt_body_def attempt_after_steps)
  have "wait_loop W u d n tr = wait_loop W u d (Suc n') ?tr"
    using wait_loop_prefix [OF assms(1) _ assms(3), of k n] assms(2) n by simp
  then show ?thesis
    by (simp add: wait_loop_hit [OF assms(1) s] b del: wait_loop.simps)
qed

lemma wait_loop_raising:
  assumes "\<not> request_raises W u" and "k < n"
    and "\<And>i. i < k \<Longrightarrow> attempt_status W u tr i \<noteq> 200 \<and>
           time_sleep W (attempt_delay W u d tr i) = None"
    and "attempt_status W u tr k \<noteq> 200"
    and "time_sleep W (attempt_delay W u d tr k) = Some e"
  shows "wait_loop W u d n tr = (Inl e, tr @ poll_steps W u d tr k @ [Request u])"
proof -
  let ?tr = "tr @ poll_steps W u d tr k"
  obtain n' where n: "n - k = Suc n'"
    using assms(2) by (cases "n - k") auto
  have s: "attempt_status W u ?tr 0 = attempt_status W u tr k"
    by (simp add: attempt_status_def attempt_after_steps)
  have dl: "attempt_delay W u d ?tr 0 = attempt_delay W u d tr k"
    by (simp add: attempt_delay_def s)
  have "wait_loop W u d n tr = wait_loop W u d (Suc n') ?tr"
    using wait_loop_prefix [OF assms(1) _ assms(3), of k n] assms(2) n by simp
  moreover have "wait_loop W u d (Suc n') ?tr = (Inl e, ?tr @ [Request u])"
    by (rule wait_loop_raise) (use assms s dl in simp_all)
  ultimately show ?thesis
    by (simp del: wait_loop.simps)
qed

lemma demo_world_simps:
  "json_loads (demo_world N) = demo_loads" "urlopen (demo_world N) = N"
  "request_raises (demo_world N) u = (CHR '':'' \<notin> set (u_base u))"
  "time_sleep (demo_world N) = demo_sleep" "float_mul (demo_world N) x y = x * y"
  by (simp_all add: demo_world_def)

lemma demo_url_ok: "\<not> request_raises (demo_world N) demo_url"
  by (simp add: demo_world_simps demo_url_def build_url_def rstrip_slash_def)

lemma no_scheme_url_raises: "request_raises (demo_world N) no_scheme_url"
  by (simp add: demo_world_simps no_scheme_url_def build_url_def rstrip_slash_def)

lemma demo_status:
  "attempt_status (demo_world demo_net) demo_url [] 0 = 202"
  "attempt_status (demo_world demo_net) demo_url [] (Suc 0) = 429"
  "attempt_status (demo_world demo_net) demo_url [] 2 = 503"
  "attempt_status (demo_world demo_net) demo_url [] 3 = 404"
  "attempt_status (demo_world demo_net) demo_url [] 4 = 0"
  "attempt_status (demo_world demo_net) demo_url [] 5 = 200"
  "attempt_body (demo_world demo_net) demo_url [] 5 = JObj []"
  by (simp_all add: attempt_status_def attempt_body_def attempt_def nreq_simps demo_net_def
        http_get_json_def demo_loads_def demo_world_simps)

lemma demo_delay:
  "attempt_delay (demo_world demo_net) demo_url d [] 0 = d"
  "attempt_delay (demo_world demo_net) demo_url d [] (Suc 0) = max 5 (d * 2)"
  "attempt_delay (demo_world demo_net) demo_url d [] 2 = max 10 (d * 5)"
  "attempt_delay (demo_world demo_net) demo_url d [] 3 = d"
  "attempt_delay (demo_world demo_net) demo_url d [] 4 = max 10 (d * 5)"
  by (simp_all add: attempt_delay_def demo_status backoff_def demo_world_simps)

lemma demo_run:
  assumes "i < 5"
  shows "attempt_status (demo_world demo_net) demo_url [] i \<noteq> 200 \<and>
    time_sleep (demo_world demo_net) (attempt_delay (demo_world demo_net) demo_url 2 [] i) = None"
proof -
  from assms have "i = 0 \<or> i = Suc 0 \<or> i = 2 \<or> i = 3 \<or> i = 4" by arith
  then show ?thesis
    by (auto simp: demo_status demo_delay demo_world_simps demo_sleep_def)
qed

lemma demo_steps:
  "poll_steps (demo_world demo_net) demo_url 2 [] 5 =
    [Request demo_url, Sleep 2, Request demo_url, Sleep 5, Request demo_url, Sleep 10,
     Request demo_url, Sleep 2, Request demo_url, Sleep 10]"
  "poll_steps (demo_world demo_net) demo_url 2 [] 3 =
    [Request demo_url, Sleep 2, Request demo_url, Sleep 5, Request demo_url, Sleep 10]"
  by (simp_all add: eval_nat_numeral poll_steps_Suc poll_steps_0 attempt_delay_def backoff_def
        attempt_status_def attempt_def nreq_simps demo_net_def http_get_json_def demo_loads_def
        demo_world_simps)

text \<open>
  C1, as stated, fails: the engine calls \<open>time.sleep\<close> with the delay, and
  \<open>time.sleep\<close> raises on a negative one. With a delay of -1 and a first answer 202 the
  poll does not sleep and continue: it ends with \<open>ValueError\<close> after the one request,
  19 attempts left. And for a URL without a scheme the poll ends with \<open>ValueError\<close>
  before any request, with no status to classify.
\<close>

theorem wait_for_200_raise_counterexample:
  "attempt_status (demo_world demo_net) demo_url [] 0 = 202 \<and>
   wait_for_200 (demo_world demo_net) demo_url 20 (- 1) [] = (Inl ValueError, [Request demo_url]) \<and>
   wait_for_200 (demo_world demo_net) no_scheme_url 20 2 [] = (Inl ValueError, [])"
proof -
  have s: "attempt_status (demo_world demo_net) demo_url [] 0 \<noteq> 200"
    by (simp add: demo_status)
  have r: "time_sleep (demo_world demo_net)
      (attempt_delay (demo_world demo_net) demo_url (- 1) [] 0) = Some ValueError"
    by (simp add: demo_delay demo_world_simps demo_sleep_def)
  have 1: "wait_loop (demo_world demo_net) demo_url (- 1) (Suc 19) [] =
      (Inl ValueError, [] @ [Request demo_url])"
    by (rule wait_loop_raise [OF demo_url_ok s r])
  have 2: "wait_loop (demo_world demo_net) no_scheme_url 2 (Suc 19) [] = (Inl ValueError, [])"
    by (rule wait_loop_bad [OF no_scheme_url_raises])
  have n: "nat 20 = Suc 19" by simp
  show ?thesis
    using 1 2 by (simp add: wait_for_200_def n demo_status del: wait_loop.simps)
qed

text \<open>
  C1, amended. The polling engine classifies the status of every attempt, provided
  \<open>Request\<close> accepts the URL and \<open>time.sleep\<close> accepts the delays. When attempt k (from
  0) is the first with status 200 and lies within the \<open>max_attempts\<close> attempts, the
  poll returns the body of that attempt at once: its effects are, for every attempt
  before, the request and then one sleep, of \<open>delay\<close> on 202, of \<open>max(5.0, delay*2)\<close> on
  429, of \<open>max(10.0, delay*5)\<close> on 500, 503 or 0 and of \<open>delay\<close> on any other status,
  and then the request of attempt k with nothing after it. When none of the
  \<open>max_attempts\<close> attempts has status 200, the poll returns absent after exactly that
  many requests, each followed by its sleep. When \<open>time.sleep\<close> raises on the delay of
  attempt k, the first it does not accept, the poll ends with that exception after the
  request of attempt k. When \<open>Request\<close> raises on the URL, the poll ends with
  \<open>ValueError\<close> before any request.
\<close>

theorem wait_for_200_spec:
  "(\<not> request_raises W u \<and> k < nat m \<and>
    (\<forall>i<k. attempt_status W u tr i \<noteq> 200 \<and> time_sleep W (attempt_delay W u d tr i) = None) \<and>
    attempt_status W u tr k = 200 \<longrightarrow>
      wait_for_200 W u m d tr =
        (Inr (attempt_body W u tr k), tr @ poll_steps W u d tr k @ [Request u])) \<and>
   (\<not> request_raises W u \<and>
    (\<forall>i<nat m. attempt_status W u tr i \<noteq> 200 \<and>
       time_sleep W (attempt_delay W u d tr i) = None) \<longrightarrow>
      wait_for_200 W u m d tr = (Inr JNull, tr @ poll_steps W u d tr (nat m))) \<and>
   (\<not> request_raises W u \<and> k < nat m \<and>
    (\<forall>i<k. attempt_status W u tr i \<noteq> 200 \<and> time_sleep W (attempt_delay W u d tr i) = None) \<and>
    attempt_status W u tr k \<noteq> 200 \<and> time_sleep W (attempt_delay W u d tr k) = Some e \<longrightarrow>
      wait_for_200 W u m d tr = (Inl e, tr @ poll_steps W u d tr k @ [Request u])) \<and>
   (request_raises W u \<and> 0 < m \<longrightarrow> wait_for_200 W u m d tr = (Inl ValueError, tr)) \<and>
   attempt_delay W u d tr k =
     (if attempt_status W u tr k = 202 then d
      else if attempt_status W u tr k = 429 then max 5 (float_mul W d 2)
      else if attempt_status W u tr k \<in> {500, 503, 0} then max 10 (float_mul W d 5)
      else d)"
proof (intro conjI impI)
  assume h: "\<not> request_raises W u \<and> k < nat m \<and>
    (\<forall>i<k. attempt_status W u tr i \<noteq> 200 \<and> time_sleep W (attempt_delay W u d tr i) = None) \<and>
    attempt_status W u tr k = 200"
  show "wait_for_200 W u m d tr =
      (Inr (attempt_body W u tr k), tr @ poll_steps W u d tr k @ [Request u])"
    unfolding wait_for_200_def by (rule wait_loop_success) (use h in simp_all)
next
  assume h: "\<not> request_raises W u \<and>
    (\<forall>i<nat m. attempt_status W u tr i \<noteq> 200 \<and>
       time_sleep W (attempt_delay W u d tr i) = None)"
  show "wait_for_200 W u m d tr = (Inr JNull, tr @ poll_steps W u d tr (nat m))"
    unfolding wait_for_200_def by (rule wait_loop_exhausted) (use h in simp_all)
next
  assume h: "\<not> request_raises W u \<and> k < nat m \<and>
    (\<forall>i<k. attempt_status W u tr i \<noteq> 200 \<and> time_sleep W (attempt_delay W u d tr i) = None) \<and>
    attempt_status W u tr k \<noteq> 200 \<and> time_sleep W (attempt_delay W u d tr k) = Some e"
  show "wait_for_200 W u m d tr = (Inl e, tr @ poll_steps W u d tr k @ [Request u])"
    unfolding wait_for_200_def by (rule wait_loop_raising) (use h in simp_all)
next
  assume h: "request_raises W u \<and> 0 < m"
  then obtain n where n: "nat m = Suc n" by (cases "nat m") auto
  show "wait_for_200 W u m d tr = (Inl ValueError, tr)"
    using h by (simp add: wait_for_200_def n)
next
  show "attempt_delay W u d tr k =
     (if attempt_status W u tr k = 202 then d
      else if attempt_status W u tr k = 429 then max 5 (float_mul W d 2)
      else if attempt_status W u tr k \<in> {500, 503, 0} then max 10 (float_mul W d 5)
      else d)"
    by (simp add: attempt_delay_def backoff_def)
qed

theorem wait_for_200_spec_witness:
  "wait_for_200 (demo_world demo_net) demo_url 20 2 [] =
     (Inr (JObj []),
      [Request demo_url, Sleep 2, Request demo_url, Sleep 5, Request demo_url, Sleep 10,
       Request demo_url, Sleep 2, Request demo_url, Sleep 10, Request demo_url]) \<and>
   wait_for_200 (demo_world demo_net) demo_url 3 2 [] =
     (Inr JNull,
      [Request demo_url, Sleep 2, Request demo_url, Sleep 5, Request demo_url, Sleep 10]) \<and>
   wait_for_200 (demo_world demo_net) demo_url 3 (- 1) [] =
     (Inl ValueError, [Request demo_url]) \<and>
   wait_for_200 (demo_world demo_net) no_scheme_url 3 2 [] = (Inl ValueError, [])"
proof -
  have a: "\<forall>i<5. attempt_status (demo_world demo_net) demo_url [] i \<noteq> 200 \<and>
      time_sleep (demo_world demo_net)
        (attempt_delay (demo_world demo_net) demo_url 2 [] i) = None"
    using demo_run by blast
  have b: "\<forall>i<nat 3. attempt_status (demo_world demo_net) demo_url [] i \<noteq> 200 \<and>
      time_sleep (demo_world demo_net)
        (attempt_delay (demo_world demo_net) demo_url 2 [] i) = None"
    using demo_run by simp
  have c: "time_sleep (demo_world demo_net)
      (attempt_delay (demo_world demo_net) demo_url (- 1) [] 0) = Some ValueError"
    by (simp add: demo_delay demo_world_simps demo_sleep_def)
  show ?thesis
    using wait_for_200_spec [where W = "demo_world demo_net" and u = demo_url and k = 5
          and m = 20 and d = 2 and tr = "[]" and e = ValueError]
      wait_for_200_spec [where W = "demo_world demo_net" and u = demo_url and k = 0
          and m = 3 and d = 2 and tr = "[]" and e = ValueError]
      wait_for_200_spec [where W = "demo_world demo_net" and u = demo_url and k = 0
          and m = 3 and d = "- 1" and tr = "[]" and e = ValueError]
      wait_for_200_spec [where W = "demo_world demo_net" and u = no_scheme_url and k = 0
          and m = 3 and d = 2 and tr = "[]" and e = ValueError]
      a b c demo_url_ok [of demo_net] no_scheme_url_raises [of demo_net]
    by (simp add: demo_status demo_steps poll_steps_0)
qed

lemma busy_once_status:
  "attempt_status (demo_world busy_once_net) demo_url [] 0 = 202"
  "attempt_status (demo_world busy_once_net) demo_url [] (Suc 0) = 200"
  "attempt_body (demo_world busy_once_net) demo_url [] (Suc 0) = JArr [JInt 1]"
  by (simp_all add: attempt_status_def attempt_body_def attempt_def nreq_simps busy_once_net_def
        http_get_json_def demo_loads_def demo_world_simps)

text \<open>
  C3, as stated, fails. A poll whose first attempt has status 200 and an empty payload
  returns absent after that single request, with 19 attempts left. And a poll answered
  202 and then 200 with a payload, under a delay of -1 that \<open>time.sleep\<close> does not
  accept, ends with \<open>ValueError\<close> after the first request: there is a 200 before the
  attempts run out, and no result.
\<close>

theorem wait_for_200_absent_counterexample:
  "attempt_status (demo_world empty_200_net) demo_url [] 0 = 200 \<and>
   wait_for_200 (demo_world empty_200_net) demo_url 20 2 [] = (Inr JNull, [Request demo_url]) \<and>
   attempt_status (demo_world busy_once_net) demo_url [] (Suc 0) = 200 \<and>
   wait_for_200 (demo_world busy_once_net) demo_url 20 (- 1) [] =
     (Inl ValueError, [Request demo_url])"
proof -
  have s: "attempt_status (demo_world empty_200_net) demo_url [] 0 = 200"
    by (simp add: attempt_status_def attempt_def empty_200_net_def http_get_json_def
          demo_world_simps)
  have b: "attempt_body (demo_world empty_200_net) demo_url [] 0 = JNull"
    by (simp add: attempt_body_def attempt_def empty_200_net_def http_get_json_def
          demo_world_simps)
  have 1: "wait_loop (demo_world empty_200_net) demo_url 2 (Suc 19) [] =
      (Inr JNull, [] @ [Request demo_url])"
    using wait_loop_hit [OF demo_url_ok s, of 2 19] b by (simp del: wait_loop.simps)
  have t: "attempt_status (demo_world busy_once_net) demo_url [] 0 \<noteq> 200"
    by (simp add: busy_once_status)
  have r: "time_sleep (demo_world busy_once_net)
      (attempt_delay (demo_world busy_once_net) demo_url (- 1) [] 0) = Some ValueError"
    by (simp add: attempt_delay_def busy_once_status backoff_def demo_world_simps demo_sleep_def)
  have 2: "wait_loop (demo_world busy_once_net) demo_url (- 1) (Suc 19) [] =
      (Inl ValueError, [] @ [Request demo_url])"
    by (rule wait_loop_raise [OF demo_url_ok t r])
  have n: "nat 20 = Suc 19" by simp
  show ?thesis
    using s 1 2 by (simp add: wait_for_200_def n busy_once_status del: wait_loop.simps)
qed

text \<open>
  C3, amended. Provided \<open>Request\<close> accepts the URL and \<open>time.sleep\<close> accepts the delays
  of the attempts before, the poll stops at the first attempt whose status is 200, having
  issued exactly the requests up to it, and its result is the body of that attempt: for
  a response with status 200 that is the parsed payload, which is absent when the
  payload is empty or parses to \<open>null\<close>. When none of the \<open>max_attempts\<close> attempts has
  status 200 the result is absent after exactly \<open>max_attempts\<close> requests. So a present
  result comes from a 200, but an absent one does not tell that the attempts ran out.
\<close>

theorem wait_for_200_result:
  "(\<not> request_raises W u \<and> k < nat m \<and>
    (\<forall>i<k. attempt_status W u tr i \<noteq> 200 \<and> time_sleep W (attempt_delay W u d tr i) = None) \<and>
    attempt_status W u tr k = 200 \<longrightarrow>
      fst (wait_for_200 W u m d tr) = Inr (attempt_body W u tr k) \<and>
      nreq (snd (wait_for_200 W u m d tr)) = nreq tr + Suc k) \<and>
   (\<not> request_raises W u \<and>
    (\<forall>i<nat m. attempt_status W u tr i \<noteq> 200 \<and>
       time_sleep W (attempt_delay W u d tr i) = None) \<longrightarrow>
      fst (wait_for_200 W u m d tr) = Inr JNull \<and>
      nreq (snd (wait_for_200 W u m d tr)) = nreq tr + nat m) \<and>
   (urlopen W (nreq tr + k) u = Response 200 (Some p) \<and> attempt_status W u tr k = 200 \<longrightarrow>
      attempt_body W u tr k = parsed_body (json_loads W) p)"
proof (intro conjI impI)
  assume h: "\<not> request_raises W u \<and> k < nat m \<and>
    (\<forall>i<k. attempt_status W u tr i \<noteq> 200 \<and> time_sleep W (attempt_delay W u d tr i) = None) \<and>
    attempt_status W u tr k = 200"
  have e: "wait_for_200 W u m d tr =
      (Inr (attempt_body W u tr k), tr @ poll_steps W u d tr k @ [Request u])"
    unfolding wait_for_200_def by (rule wait_loop_success) (use h in simp_all)
  show "fst (wait_for_200 W u m d tr) = Inr (attempt_body W u tr k)"
    by (simp add: e)
  show "nreq (snd (wait_for_200 W u m d tr)) = nreq tr + Suc k"
    by (simp add: e nreq_append nreq_poll_steps nreq_simps)
next
  assume h: "\<not> request_raises W u \<and>
    (\<forall>i<nat m. attempt_status W u tr i \<noteq> 200 \<and>
       time_sleep W (attempt_delay W u d tr i) = None)"
  have e: "wait_for_200 W u m d tr = (Inr JNull, tr @ poll_steps W u d tr (nat m))"
    unfolding wait_for_200_def by (rule wait_loop_exhausted) (use h in simp_all)
  show "fst (wait_for_200 W u m d tr) = Inr JNull"
    by (simp add: e)
  show "nreq (snd (wait_for_200 W u m d tr)) = nreq tr + nat m"
    by (simp add: e nreq_append nreq_poll_steps)
next
  assume "urlopen W (nreq tr + k) u = Response 200 (Some p) \<and> attempt_status W u tr k = 200"
  then show "attempt_body W u tr k = parsed_body (json_loads W) p"
    by (auto simp: attempt_status_def attempt_body_def attempt_def http_get_json_def parsed_body_def
          split: if_splits option.splits)
qed

theorem wait_for_200_result_witness:
  "fst (wait_for_200 (demo_world demo_net) demo_url 20 2 []) = Inr (JObj []) \<and>
   nreq (snd (wait_for_200 (demo_world demo_net) demo_url 20 2 [])) = 6 \<and>
   fst (wait_for_200 (demo_world demo_net) demo_url 3 2 []) = Inr JNull \<and>
   nreq (snd (wait_for_200 (demo_world demo_net) demo_url 3 2 [])) = 3 \<and>
   attempt_body (demo_world demo_net) demo_url [] 5 = parsed_body demo_loads ''{}''"
proof -
  have a: "\<forall>i<5. attempt_status (demo_world demo_net) demo_url [] i \<noteq> 200 \<and>
      time_sleep (demo_world demo_net)
        (attempt_delay (demo_world demo_net) demo_url 2 [] i) = None"
    using demo_run by blast
  have b: "\<forall>i<nat 3. attempt_status (demo_world demo_net) demo_url [] i \<noteq> 200 \<and>
      time_sleep (demo_world demo_net)
        (attempt_delay (demo_world demo_net) demo_url 2 [] i) = None"
    using demo_run by simp
  have c: "urlopen (demo_world demo_net) (nreq [] + 5) demo_url = Response 200 (Some ''{}'')"
    by (simp add: demo_net_def demo_world_simps)
  show ?thesis
    using wait_for_200_result [where W = "demo_world demo_net" and u = demo_url and k = 5
          and m = 20 and d = 2 and tr = "[]" and p = "''{}''"]
      wait_for_200_result [where W = "demo_world demo_net" and u = demo_url and k = 0
          and m = 3 and d = 2 and tr = "[]" and p = "''{}''"]
      a b c demo_url_ok [of demo_net]
    by (simp add: demo_status nreq_simps demo_world_simps)
qed

subsection \<open>JSON HTTP fetcher\<close>

text \<open>
  C2, as stated, fails: for a 200 response with the payload \<open>{}\<close> the raw text of the
  outcome is empty, not the payload; and for a 200 response whose payload does not parse
  the outcome is that of a transport failure, status 0, not status 200.
\<close>

theorem http_get_json_counterexample:
  "http_get_json demo_loads (Response 200 (Some ''{}'')) = (200, JObj [], []) \<and>
   spec_outcome demo_loads 200 ''{}'' = (200, JObj [], ''{}'') \<and>
   http_get_json demo_loads (Response 200 (Some ''<html>'')) = (0, JNull, []) \<and>
   spec_outcome demo_loads 200 ''<html>'' = (200, JNull, ''<html>'')"
  by (simp add: http_get_json_def spec_outcome_def parsed_body_def demo_loads_def)

text \<open>
  C2, amended. For a response that \<open>urlopen\<close> returns (2xx) whose payload is empty or
  parses, the outcome has the status of the response, the parsed payload as its body
  (absent for an empty payload), and an empty raw text. For a response raised as
  \<open>HTTPError\<close> the outcome has the code of the response, the parsed payload as its body
  when the payload is not empty and parses and absent otherwise, and as raw text the
  payload, but the empty text when the payload does not parse or cannot be read. With
  no response at all the outcome is (0, absent, empty). Nothing is said about a 2xx
  response whose payload does not parse.
\<close>

theorem http_get_json_outcome:
  "(p = [] \<or> L p \<noteq> None \<longrightarrow>
      http_get_json L (Response st (Some p)) = (st, parsed_body L p, [])) \<and>
   http_get_json L (HTTPError code (Some p)) =
     (code, parsed_body L p, if p \<noteq> [] \<and> L p = None then [] else p) \<and>
   http_get_json L (HTTPError code None) = (code, JNull, []) \<and>
   http_get_json L Failure = (0, JNull, [])"
  by (auto simp: http_get_json_def parsed_body_def split: option.splits)

theorem http_get_json_outcome_witness:
  "http_get_json demo_loads (Response 200 (Some ''[1]'')) = (200, JArr [JInt 1], []) \<and>
   http_get_json demo_loads (Response 202 (Some [])) = (202, JNull, []) \<and>
   http_get_json demo_loads (HTTPError 404 (Some ''not found'')) = (404, JNull, []) \<and>
   http_get_json demo_loads (HTTPError 500 (Some ''{}'')) = (500, JObj [], ''{}'')"
  using http_get_json_outcome [of "''[1]''" demo_loads 200 404]
    http_get_json_outcome [of "[]" demo_loads 202 404]
    http_get_json_outcome [of "''not found''" demo_loads 200 404]
    http_get_json_outcome [of "''{}''" demo_loads 200 500]
  by (simp add: parsed_body_def demo_loads_def)

subsection \<open>Warming orchestrators\<close>

lemma requested_append: "requested (xs @ ys) = requested xs @ requested ys"
  by (simp add: requested_def)

lemma requested_simps: "requested [] = []" "requested (Request u # tr) = u # requested tr"
  "requested (Sleep r # tr) = requested tr" "requested (Write f c # tr) = requested tr"
  by (simp_all add: requested_def)

lemma requested_wait_loop:
  "set (requested (snd (wait_loop W u d n tr))) \<subseteq> insert u (set (requested tr))"
proof (induction n arbitrary: tr)
  case 0
  show ?case by auto
next
  case (Suc n)
  show ?case
  proof (cases "request_raises W u")
    case True
    then show ?thesis by (simp add: wait_loop_bad del: wait_loop.simps) blast
  next
    case ok: False
    show ?thesis
    proof (cases "attempt_status W u tr 0 = 200")
      case True
      then show ?thesis
        by (simp add: wait_loop_hit [OF ok] requested_append requested_simps del: wait_loop.simps)
    next
      case False
      show ?thesis
      proof (cases "time_sleep W (attempt_delay W u d tr 0)")
        case None
        show ?thesis
          using Suc.IH [of "tr @ [Request u, Sleep (attempt_delay W u d tr 0)]"]
          by (simp add: wait_loop_step [OF ok False None] requested_append requested_simps
                del: wait_loop.simps)
      next
        case (Some e)
        show ?thesis
          by (simp add: wait_loop_raise [OF ok False Some] requested_append requested_simps
                del: wait_loop.simps)
      qed
    qed
  qed
qed

lemma requested_wait_for_200:
  "wait_for_200 W u m d tr = (r, tr1) \<Longrightarrow> set (requested tr1) \<subseteq> insert u (set (requested tr))"
  using requested_wait_loop [of W u d "nat m" tr] by (simp add: wait_for_200_def)

lemma subseq_set_subset: "subseq ys xs \<Longrightarrow> set ys \<subseteq> set xs"
  by (induction rule: list_emb.induct) auto

lemma distinct_count_1: "distinct zs \<Longrightarrow> z \<in> set zs \<Longrightarrow> count_list zs z = 1"
  by (induction zs) auto

text \<open>One pass of a warming loop: the poll raises, the throttle sleep raises, or the
  loop goes on.\<close>

lemma profile_loop_poll_raise:
  assumes "wait_for_200 W (adventurer_url a x) (max_attempts a) (delay a) tr = (Inl e, tr1)"
  shows "profile_loop W a (x # xs) (failed, tr) = (Inl e, tr1)"
  using assms by simp

lemma profile_loop_sleep_raise:
  assumes "wait_for_200 W (adventurer_url a x) (max_attempts a) (delay a) tr = (Inr r, tr1)"
    and "time_sleep W (throttle a) = Some e"
  shows "profile_loop W a (x # xs) (failed, tr) = (Inl e, tr1)"
  using assms by (simp add: py_sleep_def)

lemma profile_loop_poll:
  assumes "wait_for_200 W (adventurer_url a x) (max_attempts a) (delay a) tr = (Inr r, tr1)"
    and "time_sleep W (throttle a) = None"
  shows "profile_loop W a (x # xs) (failed, tr) =
    profile_loop W a xs
      (if r = JNull then failed @ [x] else failed, tr1 @ [Sleep (throttle a)])"
  using assms by (simp add: py_sleep_def)

lemma profile_loop_failed:
  "profile_loop W a xs (failed, tr) = (Inr f, tr') \<Longrightarrow> \<exists>ys. f = failed @ ys \<and> subseq ys xs"
proof (induction xs arbitrary: failed tr)
  case Nil
  then show ?case by simp
next
  case (Cons x xs)
  obtain r tr1 where w: "wait_for_200 W (adventurer_url a x) (max_attempts a) (delay a) tr = (r, tr1)"
    by (cases "wait_for_200 W (adventurer_url a x) (max_attempts a) (delay a) tr")
  show ?case
  proof (cases r)
    case (Inl e)
    then show ?thesis
      using Cons.prems w by (simp add: profile_loop_poll_raise del: profile_loop.simps)
  next
    case (Inr j)
    note wj = w [unfolded Inr]
    show ?thesis
    proof (cases "time_sleep W (throttle a)")
      case (Some e)
      then show ?thesis
        using Cons.prems by (simp add: profile_loop_sleep_raise [OF wj Some] del: profile_loop.simps)
    next
      case None
      let ?f = "if j = JNull then failed @ [x] else failed"
      have "profile_loop W a xs (?f, tr1 @ [Sleep (throttle a)]) = (Inr f, tr')"
        using Cons.prems by (simp add: profile_loop_poll [OF wj None] del: profile_loop.simps)
      then obtain ys where ys: "f = ?f @ ys" and sub: "subseq ys xs"
        using Cons.IH by blast
      show ?thesis
      proof (cases "j = JNull")
        case True
        have "f = failed @ (x # ys)" using ys True by simp
        moreover have "subseq (x # ys) (x # xs)" using sub by simp
        ultimately show ?thesis by blast
      next
        case False
        have "f = failed @ ys" using ys False by simp
        moreover have "subseq ys (x # xs)" using sub by (rule list_emb_Cons)
        ultimately show ?thesis by blast
      qed
    qed
  qed
qed

lemma search_url_inj: "search_url a x = search_url a y \<Longrightarrow> x = y"
  by (simp add: search_url_def build_url_def)

lemma search_loop_skip:
  "\<not> is_valid_search_query x \<Longrightarrow> search_loop W a (x # xs) s = search_loop W a xs s"
  by (cases s) simp

lemma search_loop_poll_raise:
  assumes "is_valid_search_query x"
    and "wait_for_200 W (search_url a x) (max_attempts a) (delay a) tr = (Inl e, tr1)"
  shows "search_loop W a (x # xs) (failed, tr) = (Inl e, tr1)"
  using assms by simp

lemma search_loop_sleep_raise:
  assumes "is_valid_search_query x"
    and "wait_for_200 W (search_url a x) (max_attempts a) (delay a) tr = (Inr r, tr1)"
    and "time_sleep W (throttle a) = Some e"
  shows "search_loop W a (x # xs) (failed, tr) = (Inl e, tr1)"
  using assms by (simp add: py_sleep_def)

lemma search_loop_poll:
  assumes "is_valid_search_query x"
    and "wait_for_200 W (search_url a x) (max_attempts a) (delay a) tr = (Inr r, tr1)"
    and "time_sleep W (throttle a) = None"
  shows "search_loop W a (x # xs) (failed, tr) =
    search_loop W a xs
      (if r = JNull then failed @ [x] else failed, tr1 @ [Sleep (throttle a)])"
  using assms by (simp add: py_sleep_def)

lemma search_loop_failed:
  "search_loop W a xs (failed, tr) = (Inr f, tr') \<Longrightarrow>
   \<exists>ys. f = failed @ ys \<and> subseq ys xs \<and> (\<forall>y\<in>set ys. is_valid_search_query y)"
proof (induction xs arbitrary: failed tr)
  case Nil
  then show ?case by simp
next
  case (Cons x xs)
  show ?case
  proof (cases "is_valid_search_query x")
    case False
    have "search_loop W a xs (failed, tr) = (Inr f, tr')"
      using Cons.prems by (simp only: search_loop_skip [OF False])
    then obtain ys where ys: "f = failed @ ys"
      and sub: "subseq ys xs" and v: "\<forall>y\<in>set ys. is_valid_search_query y"
      using Cons.IH by blast
    have "subseq ys (x # xs)" using sub by (rule list_emb_Cons)
    then show ?thesis using ys v by blast
  next
    case True
    obtain r tr1 where w: "wait_for_200 W (search_url a x) (max_attempts a) (delay a) tr = (r, tr1)"
      by (cases "wait_for_200 W (search_url a x) (max_attempts a) (delay a) tr")
    show ?thesis
    proof (cases r)
      case (Inl e)
      then show ?thesis
        using Cons.prems w by (simp add: search_loop_poll_raise [OF True] del: search_loop.simps)
    next
      case (Inr j)
      note wj = w [unfolded Inr]
      show ?thesis
      proof (cases "time_sleep W (throttle a)")
        case (Some e)
        then show ?thesis
          using Cons.prems
          by (simp add: search_loop_sleep_raise [OF True wj Some] del: search_loop.simps)
      next
        case None
        let ?f = "if j = JNull then failed @ [x] else failed"
        have "search_loop W a xs (?f, tr1 @ [Sleep (throttle a)]) = (Inr f, tr')"
          using Cons.prems by (simp add: search_loop_poll [OF True wj None] del: search_loop.simps)
        then obtain ys where ys: "f = ?f @ ys"
          and sub: "subseq ys xs" and v: "\<forall>y\<in>set ys. is_valid_search_query y"
          using Cons.IH by blast
        show ?thesis
        proof (cases "j = JNull")
          case j: True
          have "f = failed @ (x # ys)" using ys j by simp
          moreover have "subseq (x # ys) (x # xs)" using sub by simp
          moreover have "\<forall>y\<in>set (x # ys). is_valid_search_query y" using v True by simp
          ultimately show ?thesis by blast
        next
          case j: False
          have "f = failed @ ys" using ys j by simp
          moreover have "subseq ys (x # xs)" using sub by (rule list_emb_Cons)
          ultimately show ?thesis using v by blast
        qed
      qed
    qed
  qed
qed

lemma search_loop_requested:
  "set (requested (snd (search_loop W a xs (failed, tr)))) \<subseteq>
     set (requested tr) \<union> search_url a ` {x \<in> set xs. is_valid_search_query x}"
proof (induction xs arbitrary: failed tr)
  case Nil
  show ?case by simp
next
  case (Cons x xs)
  show ?case
  proof (cases "is_valid_search_query x")
    case False
    have s: "{y \<in> set (x # xs). is_valid_search_query y} = {y \<in> set xs. is_valid_search_query y}"
      using False by auto
    show ?thesis
      using Cons.IH [of failed tr] by (simp only: search_loop_skip [OF False] s)
  next
    case True
    obtain r tr1 where w: "wait_for_200 W (search_url a x) (max_attempts a) (delay a) tr = (r, tr1)"
      by (cases "wait_for_200 W (search_url a x) (max_attempts a) (delay a) tr")
    have q: "set (requested tr1) \<subseteq> insert (search_url a x) (set (requested tr))"
      using requested_wait_for_200 [OF w] .
    have s: "{y \<in> set (x # xs). is_valid_search_query y} =
        insert x {y \<in> set xs. is_valid_search_query y}"
      using True by auto
    show ?thesis
    proof (cases r)
      case (Inl e)
      have "snd (search_loop W a (x # xs) (failed, tr)) = tr1"
        using w Inl by (simp add: search_loop_poll_raise [OF True] del: search_loop.simps)
      then show ?thesis unfolding s using q by auto
    next
      case (Inr j)
      note wj = w [unfolded Inr]
      show ?thesis
      proof (cases "time_sleep W (throttle a)")
        case (Some e)
        have "snd (search_loop W a (x # xs) (failed, tr)) = tr1"
          by (simp add: search_loop_sleep_raise [OF True wj Some] del: search_loop.simps)
        then show ?thesis unfolding s using q by auto
      next
        case None
        let ?f = "if j = JNull then failed @ [x] else failed"
        note e = search_loop_poll [OF True wj None, of xs failed]
        have q': "set (requested (tr1 @ [Sleep (throttle a)])) \<subseteq>
            insert (search_url a x) (set (requested tr))"
          using q by (simp add: requested_append requested_simps)
        have "set (requested (snd (search_loop W a xs (?f, tr1 @ [Sleep (throttle a)])))) \<subseteq>
            set (requested (tr1 @ [Sleep (throttle a)])) \<union>
            search_url a ` {y \<in> set xs. is_valid_search_query y}"
          by (rule Cons.IH)
        then show ?thesis
          unfolding e s using q' by blast
      qed
    qed
  qed
qed

lemma main_search_requested:
  "set (requested (snd (main_search W a xs tr))) \<subseteq>
     set (requested tr) \<union> search_url a ` {x \<in> set (unique xs). is_valid_search_query x}"
proof (cases "warm_search a")
  case False
  then show ?thesis by (simp add: main_search_def)
next
  case True
  obtain r tr1 where l: "search_loop W a (unique xs) ([], tr) = (r, tr1)"
    by (cases "search_loop W a (unique xs) ([], tr)")
  have "requested (snd (main_search W a xs tr)) = requested tr1"
    using True l
    by (cases r) (simp_all add: main_search_def Let_def write_lines_def requested_append
          requested_simps)
  then show ?thesis
    using search_loop_requested [of W a "unique xs" "[]" tr] l by simp
qed

text \<open>
  C8. In the profile warming and in the search warming of a run that gets through, the
  deduplicated identifier list has no two equal entries, the failure list is a
  sub-sequence of it, and every identifier of the failure list occurs in it exactly
  once. In the search warming every identifier of the failure list passes the query
  validator: one that the validator rejects is not in the failure list, and no request
  for it is issued (a request for its search URL is in the trace afterwards only if it
  was there before). No request for it is issued in a run that an exception ends,
  either.
\<close>

theorem failure_list_invariant:
  "(main_profiles W a xs tr = (Inr (uniq, failed), tr') \<longrightarrow>
      distinct uniq \<and> subseq failed uniq \<and> (\<forall>x\<in>set failed. count_list uniq x = 1)) \<and>
   (main_search W a xs tr = (Inr (uniq, failed), tr') \<longrightarrow>
      distinct uniq \<and> subseq failed uniq \<and>
      (\<forall>x\<in>set failed. count_list uniq x = 1 \<and> is_valid_search_query x) \<and>
      (\<forall>x. \<not> is_valid_search_query x \<longrightarrow>
         x \<notin> set failed \<and>
         (search_url a x \<in> set (requested tr') \<longrightarrow> search_url a x \<in> set (requested tr)))) \<and>
   (\<not> is_valid_search_query y \<and>
    search_url a y \<in> set (requested (snd (main_search W a xs tr))) \<longrightarrow>
      search_url a y \<in> set (requested tr))"
proof (intro conjI impI)
  assume m: "main_profiles W a xs tr = (Inr (uniq, failed), tr')"
  obtain r tr1 where l: "profile_loop W a (unique xs) ([], tr) = (r, tr1)"
    by (cases "profile_loop W a (unique xs) ([], tr)")
  have u: "uniq = unique xs" and r: "r = Inr failed"
    using m l by (cases r; simp add: main_profiles_def Let_def)+
  obtain ys where f: "failed = [] @ ys" and sub: "subseq ys (unique xs)"
    using profile_loop_failed [OF l [unfolded r]] by blast
  show "distinct uniq" by (simp add: u distinct_unique)
  show "subseq failed uniq" using sub by (simp add: u f)
  show "\<forall>x\<in>set failed. count_list uniq x = 1"
    using subseq_set_subset [OF sub] distinct_count_1 [OF distinct_unique [of xs]] f
    unfolding u by auto
next
  assume m: "main_search W a xs tr = (Inr (uniq, failed), tr')"
  have r: "set (requested tr') \<subseteq>
      set (requested tr) \<union> search_url a ` {x \<in> set (unique xs). is_valid_search_query x}"
    using main_search_requested [of W a xs tr] m by simp
  have "distinct uniq \<and> subseq failed uniq \<and>
      (\<forall>x\<in>set failed. count_list uniq x = 1 \<and> is_valid_search_query x)"
  proof (cases "warm_search a")
    case False
    then show ?thesis using m by (auto simp: main_search_def)
  next
    case True
    obtain r tr1 where l: "search_loop W a (unique xs) ([], tr) = (r, tr1)"
      by (cases "search_loop W a (unique xs) ([], tr)")
    have u: "uniq = unique xs" and r: "r = Inr failed"
      using m l True by (cases r; simp add: main_search_def Let_def)+
    obtain ys where f: "failed = [] @ ys" and sub: "subseq ys (unique xs)"
      and v: "\<forall>y\<in>set ys. is_valid_search_query y"
      using search_loop_failed [OF l [unfolded r]] by blast
    have c: "\<forall>x\<in>set ys. count_list (unique xs) x = 1"
      using subseq_set_subset [OF sub] distinct_count_1 [OF distinct_unique [of xs]] by blast
    show ?thesis
      using sub c v by (simp add: u f distinct_unique)
  qed
  then show "distinct uniq" and "subseq failed uniq"
    and fv: "\<forall>x\<in>set failed. count_list uniq x = 1 \<and> is_valid_search_query x"
    by simp_all
  show "\<forall>x. \<not> is_valid_search_query x \<longrightarrow>
         x \<notin> set failed \<and>
         (search_url a x \<in> set (requested tr') \<longrightarrow> search_url a x \<in> set (requested tr))"
  proof (intro allI impI conjI)
    fix x
    assume nv: "\<not> is_valid_search_query x"
    show "x \<notin> set failed" using fv nv by blast
    assume "search_url a x \<in> set (requested tr')"
    then have "search_url a x \<in> set (requested tr) \<or>
        search_url a x \<in> search_url a ` {x \<in> set (unique xs). is_valid_search_query x}"
      using r by blast
    then show "search_url a x \<in> set (requested tr)"
      using nv search_url_inj by blast
  qed
next
  assume h: "\<not> is_valid_search_query y \<and>
    search_url a y \<in> set (requested (snd (main_search W a xs tr)))"
  then have "search_url a y \<in> set (requested tr) \<or>
      search_url a y \<in> search_url a ` {x \<in> set (unique xs). is_valid_search_query x}"
    using main_search_requested [of W a xs tr] by blast
  then show "search_url a y \<in> set (requested tr)"
    using h search_url_inj by blast
qed

lemma demo_valid:
  "is_valid_search_query ''John_123''" "\<not> is_valid_search_query ''john doe''"
  "\<not> is_valid_search_query ''ab''"
  by (simp_all add: is_valid_search_query_def word_class_def in_range_def)

lemma demo_unique:
  "unique [''John_123'', ''john doe'', ''John_123'', ''ab''] = [''John_123'', ''john doe'', ''ab'']"
  by (simp add: unique_def dict_fromkeys_def dict_keys_def)

lemma demo_poll:
  assumes "CHR '':'' \<in> set (u_base u)"
  shows "wait_for_200 (demo_world not_found_net) u 2 2 tr =
    (Inr JNull, tr @ [Request u, Sleep 2, Request u, Sleep 2])"
proof -
  have s: "attempt_status (demo_world not_found_net) u tr i = 404" for i
    by (simp add: attempt_status_def attempt_def not_found_net_def http_get_json_def
          demo_world_simps)
  have d: "attempt_delay (demo_world not_found_net) u 2 tr i = 2" for i
    by (simp add: attempt_delay_def s backoff_def)
  have ok: "\<not> request_raises (demo_world not_found_net) u"
    using assms by (simp add: demo_world_simps)
  have "wait_loop (demo_world not_found_net) u 2 (Suc (Suc 0)) tr =
      (Inr JNull, tr @ poll_steps (demo_world not_found_net) u 2 tr (Suc (Suc 0)))"
    by (rule wait_loop_exhausted [OF ok]) (simp add: s d demo_world_simps demo_sleep_def)
  then show ?thesis
    by (simp add: wait_for_200_def numeral_2_eq_2 poll_steps_Suc poll_steps_0 d
          del: wait_loop.simps)
qed

lemma demo_bases:
  "CHR '':'' \<in> set (u_base (search_url demo_args x))"
  "CHR '':'' \<in> set (u_base (adventurer_url demo_args x))"
  "CHR '':'' \<in> set (u_base (guild_url demo_args x))"
  by (simp_all add: search_url_def adventurer_url_def guild_url_def build_url_def rstrip_slash_def
        demo_args_def)

lemma demo_main_search:
  "main_search (demo_world not_found_net) demo_args
     [''John_123'', ''john doe'', ''John_123'', ''ab''] [] =
   (Inr ([''John_123'', ''john doe'', ''ab''], [''John_123'']),
    [Request (search_url demo_args ''John_123''), Sleep 2,
     Request (search_url demo_args ''John_123''), Sleep 2, Sleep (1 / 5),
     write_lines ''failed_searches.txt'' [''John_123'']])"
proof -
  have a: "max_attempts demo_args = 2" "delay demo_args = 2" "throttle demo_args = 1 / 5"
    "warm_search demo_args"
    by (simp_all add: demo_args_def)
  show ?thesis
    by (simp add: main_search_def Let_def demo_unique demo_valid a demo_poll demo_bases
          py_sleep_def demo_world_simps demo_sleep_def)
qed

lemma demo_main_profiles:
  "main_profiles (demo_world not_found_net) demo_args [''p1'', ''p1''] [] =
   (Inr ([''p1''], [''p1'']),
    [Request (adventurer_url demo_args ''p1''), Sleep 2,
     Request (adventurer_url demo_args ''p1''), Sleep 2, Sleep (1 / 5),
     write_lines ''failed_profiles.txt'' [''p1'']])"
proof -
  have a: "max_attempts demo_args = 2" "delay demo_args = 2" "throttle demo_args = 1 / 5"
    by (simp_all add: demo_args_def)
  have u: "unique [''p1'', ''p1''] = [''p1'']"
    by (simp add: unique_def dict_fromkeys_def dict_keys_def)
  show ?thesis
    by (simp add: main_profiles_def Let_def u a demo_poll demo_bases
          py_sleep_def demo_world_simps demo_sleep_def)
qed

theorem failure_list_invariant_witness:
  "distinct [''p1''] \<and> subseq [''p1''] [''p1''] \<and> count_list [''p1''] ''p1'' = 1 \<and>
   distinct [''John_123'', ''john doe'', ''ab''] \<and>
   count_list [''John_123'', ''john doe'', ''ab''] ''John_123'' = 1 \<and>
   is_valid_search_query ''John_123'' \<and>
   \<not> is_valid_search_query ''john doe'' \<and>
   search_url demo_args ''john doe'' \<notin> set (requested
     [Request (search_url demo_args ''John_123''), Sleep 2,
      Request (search_url demo_args ''John_123''), Sleep 2, Sleep (1 / 5),
      write_lines ''failed_searches.txt'' [''John_123'']])"
  using failure_list_invariant [where W = "demo_world not_found_net" and a = demo_args
      and xs = "[''p1'', ''p1'']" and tr = "[]" and uniq = "[''p1'']" and failed = "[''p1'']"
      and tr' = "[Request (adventurer_url demo_args ''p1''), Sleep 2,
        Request (adventurer_url demo_args ''p1''), Sleep 2, Sleep (1 / 5),
        write_lines ''failed_profiles.txt'' [''p1'']]" and y = "''john doe''"]
    failure_list_invariant [where W = "demo_world not_found_net" and a = demo_args
      and xs = "[''John_123'', ''john doe'', ''John_123'', ''ab'']" and tr = "[]"
      and uniq = "[''John_123'', ''john doe'', ''ab'']" and failed = "[''John_123'']"
      and tr' = "[Request (search_url demo_args ''John_123''), Sleep 2,
        Request (search_url demo_args ''John_123''), Sleep 2, Sleep (1 / 5),
        write_lines ''failed_searches.txt'' [''John_123'']]" and y = "''john doe''"]
    demo_main_search demo_main_profiles demo_valid
  by (simp add: requested_simps write_lines_def search_url_def build_url_def)

subsection \<open>Guild loop\<close>

lemma guild_step_falsy_result:
  assumes "wait_for_200 W (guild_url a g) (max_attempts a) (delay a) tr = (Inr j, tr1)"
    and "\<not> truthy j"
  shows "guild_step W a g (pts, fns, tr) = (Inr (pts, fns), tr1)"
  using assms by (simp add: guild_step_def)

lemma guild_step_truthy_result:
  assumes "wait_for_200 W (guild_url a g) (max_attempts a) (delay a) tr = (Inr j, tr1)"
    and "truthy j"
    and "collect_profile_targets j = Inr ps" and "collect_family_names j = Inr fs"
    and "time_sleep W (throttle a) = None"
  shows "guild_step W a g (pts, fns, tr) =
    (Inr (pts @ ps, fns @ fs), tr1 @ [Sleep (throttle a)])"
  using assms by (simp add: guild_step_def py_sleep_def)

lemma first_attempt_200:
  assumes "0 < m" and "\<not> request_raises W u"
    and "fst (http_get_json (json_loads W) (urlopen W (nreq tr) u)) = 200"
  shows "wait_for_200 W u m d tr =
    (Inr (fst (snd (http_get_json (json_loads W) (urlopen W (nreq tr) u)))), tr @ [Request u])"
proof -
  obtain n where n: "nat m = Suc n" using assms(1) by (cases "nat m") auto
  have "attempt_status W u tr 0 = 200"
    using assms(3) by (simp add: attempt_status_def attempt_def)
  then show ?thesis
    by (simp add: wait_for_200_def n wait_loop_hit [OF assms(2)] attempt_body_def attempt_def
          del: wait_loop.simps)
qed

text \<open>
  C10. When the poll for a guild returns a body that is not truthy, the step of the guild
  loop leaves both collected lists as they were and adds nothing to the trace of the
  poll: no member is extracted and the throttle sleep is skipped. That is what it does
  after a failed poll, whose result \<open>None\<close> is not truthy either. In particular a first
  answer 200 with an empty payload, or with a payload that parses to a value that is
  not truthy such as \<open>{}\<close>, ends the step after the one request. By contrast, after a
  truthy body whose members can be extracted the lists grow and the throttle sleep
  follows.
\<close>

theorem guild_step_falsy_body:
  "(wait_for_200 W (guild_url a g) (max_attempts a) (delay a) tr = (Inr jf, trf) \<and>
    \<not> truthy jf \<longrightarrow>
      guild_step W a g (pts, fns, tr) = (Inr (pts, fns), trf)) \<and>
   (0 < max_attempts a \<and> \<not> request_raises W (guild_url a g) \<and>
    urlopen W (nreq tr) (guild_url a g) = Response 200 (Some p) \<and>
    (p = [] \<or> (\<exists>j. json_loads W p = Some j \<and> \<not> truthy j)) \<longrightarrow>
      guild_step W a g (pts, fns, tr) = (Inr (pts, fns), tr @ [Request (guild_url a g)])) \<and>
   (wait_for_200 W (guild_url a g) (max_attempts a) (delay a) tr = (Inr j, tr1) \<and> truthy j \<and>
    collect_profile_targets j = Inr ps \<and> collect_family_names j = Inr fs \<and>
    time_sleep W (throttle a) = None \<longrightarrow>
      guild_step W a g (pts, fns, tr) =
        (Inr (pts @ ps, fns @ fs), tr1 @ [Sleep (throttle a)]))"
proof (intro conjI impI)
  assume "wait_for_200 W (guild_url a g) (max_attempts a) (delay a) tr = (Inr jf, trf) \<and>
    \<not> truthy jf"
  then show "guild_step W a g (pts, fns, tr) = (Inr (pts, fns), trf)"
    using guild_step_falsy_result by blast
next
  assume h: "0 < max_attempts a \<and> \<not> request_raises W (guild_url a g) \<and>
    urlopen W (nreq tr) (guild_url a g) = Response 200 (Some p) \<and>
    (p = [] \<or> (\<exists>j. json_loads W p = Some j \<and> \<not> truthy j))"
  let ?o = "http_get_json (json_loads W) (urlopen W (nreq tr) (guild_url a g))"
  have s: "fst ?o = 200" and b: "\<not> truthy (fst (snd ?o))"
    using h by (auto simp: http_get_json_def)
  have w: "wait_for_200 W (guild_url a g) (max_attempts a) (delay a) tr =
      (Inr (fst (snd ?o)), tr @ [Request (guild_url a g)])"
    using h s by (intro first_attempt_200) simp_all
  show "guild_step W a g (pts, fns, tr) = (Inr (pts, fns), tr @ [Request (guild_url a g)])"
    by (rule guild_step_falsy_result [OF w b])
next
  assume "wait_for_200 W (guild_url a g) (max_attempts a) (delay a) tr = (Inr j, tr1) \<and>
    truthy j \<and> collect_profile_targets j = Inr ps \<and> collect_family_names j = Inr fs \<and>
    time_sleep W (throttle a) = None"
  then show "guild_step W a g (pts, fns, tr) =
      (Inr (pts @ ps, fns @ fs), tr1 @ [Sleep (throttle a)])"
    using guild_step_truthy_result by blast
qed

theorem guild_step_falsy_body_witness:
  "guild_step (demo_world empty_object_net) demo_args ''Mythic'' ([], [], []) =
     (Inr ([], []), [Request (guild_url demo_args ''Mythic'')]) \<and>
   guild_step (demo_world empty_200_net) demo_args ''Mythic'' ([], [], []) =
     (Inr ([], []), [Request (guild_url demo_args ''Mythic'')]) \<and>
   guild_step (demo_world not_found_net) demo_args ''Mythic'' ([], [], []) =
     (Inr ([], []),
       [Request (guild_url demo_args ''Mythic''), Sleep 2,
        Request (guild_url demo_args ''Mythic''), Sleep 2])"
proof -
  have a: "max_attempts demo_args = 2" "delay demo_args = 2"
    by (simp_all add: demo_args_def)
  have 1: "demo_loads ''{}'' = Some (JObj []) \<and> \<not> truthy (JObj [])"
    by (simp add: demo_loads_def)
  have w: "wait_for_200 (demo_world not_found_net) (guild_url demo_args ''Mythic'') 2 2 [] =
      (Inr JNull, [Request (guild_url demo_args ''Mythic''), Sleep 2,
        Request (guild_url demo_args ''Mythic''), Sleep 2])"
    using demo_poll [OF demo_bases(3), of "''Mythic''" "[]"] by simp
  show ?thesis
    using guild_step_falsy_body [where W = "demo_world empty_object_net" and a = demo_args
        and g = "''Mythic''" and tr = "[]" and pts = "[]" and fns = "[]" and p = "''{}''"]
      guild_step_falsy_body [where W = "demo_world empty_200_net" and a = demo_args
        and g = "''Mythic''" and tr = "[]" and pts = "[]" and fns = "[]" and p = "[]"]
      guild_step_falsy_body [where W = "demo_world not_found_net" and a = demo_args
        and g = "''Mythic''" and tr = "[]" and pts = "[]" and fns = "[]" and jf = JNull
        and trf = "[Request (guild_url demo_args ''Mythic''), Sleep 2,
          Request (guild_url demo_args ''Mythic''), Sleep 2]"]
      1 w demo_bases(3) [of "''Mythic''"]
    by (simp add: a empty_object_net_def empty_200_net_def demo_world_simps nreq_simps)
qed

subsection \<open>Proxy validator and filter pipeline\<close>

lemma contains_sublist: "contains needle hay \<longleftrightarrow> sublist needle hay"
  by (induction hay) (auto simp: sublist_Cons_right)

lemma contains_set: "contains needle hay \<Longrightarrow> set needle \<subseteq> set hay"
  by (auto simp: contains_sublist sublist_def)

text \<open>
  C4. The verdict of the proxy validator is true if and only if the probe gave a response
  (nothing raised), its status is exactly 200, the first 20000 bytes of the body, decoded
  and lower-cased, contain none of \<open>imperva\<close>, \<open>incapsula\<close> and \<open><iframe\<close>, and the
  decoded body has more than 500 characters. A probe that raises gives false: the
  validator always returns a boolean. On ASCII text: 501 bytes without a marker give
  true; 501 bytes with an embedded-frame tag in capitals, 400 bytes, and a status 403
  give false.
\<close>

theorem test_proxy_verdict:
  "(test_proxy decode lower ev \<longleftrightarrow>
     (\<exists>payload. ev = ProbeResponse 200 payload \<and>
        \<not> sublist ''imperva'' (lower (decode (take 20000 payload))) \<and>
        \<not> sublist ''incapsula'' (lower (decode (take 20000 payload))) \<and>
        \<not> sublist ''<iframe'' (lower (decode (take 20000 payload))) \<and>
        500 < length (decode (take 20000 payload)))) \<and>
   \<not> test_proxy decode lower ProbeRaised \<and>
   test_proxy ascii_decode ascii_lower (ProbeResponse 200 (replicate 501 CHR ''a'')) \<and>
   \<not> test_proxy ascii_decode ascii_lower
       (ProbeResponse 200 (''<IFRAME'' @ replicate 494 CHR ''a'')) \<and>
   \<not> test_proxy ascii_decode ascii_lower (ProbeResponse 200 (replicate 400 CHR ''a'')) \<and>
   \<not> test_proxy ascii_decode ascii_lower (ProbeResponse 403 (replicate 501 CHR ''a''))"
proof -
  have 1: "test_proxy decode lower ev \<longleftrightarrow>
     (\<exists>payload. ev = ProbeResponse 200 payload \<and>
        \<not> sublist ''imperva'' (lower (decode (take 20000 payload))) \<and>
        \<not> sublist ''incapsula'' (lower (decode (take 20000 payload))) \<and>
        \<not> sublist ''<iframe'' (lower (decode (take 20000 payload))) \<and>
        500 < length (decode (take 20000 payload)))"
    by (cases ev) (auto simp: test_proxy_def Let_def contains_sublist)
  have 2: "\<not> test_proxy decode lower ProbeRaised"
    by (simp add: test_proxy_def)
  have l: "ascii_lower (replicate n CHR ''a'') = replicate n CHR ''a''" for n
    by (simp add: ascii_lower_def)
  have n: "\<not> contains (c # m) (replicate k CHR ''a'')" if "c \<noteq> CHR ''a''" for c m k
    using contains_set [of "c # m" "replicate k CHR ''a''"] that
    by (auto simp: set_replicate_conv_if split: if_splits)
  have 3: "test_proxy ascii_decode ascii_lower (ProbeResponse 200 (replicate 501 CHR ''a''))"
    by (simp add: test_proxy_def Let_def ascii_decode_def l n)
  have 4: "\<not> test_proxy ascii_decode ascii_lower
       (ProbeResponse 200 (''<IFRAME'' @ replicate 494 CHR ''a''))"
    by (simp add: test_proxy_def Let_def ascii_decode_def ascii_lower_def)
  have 5: "\<not> test_proxy ascii_decode ascii_lower (ProbeResponse 200 (replicate 400 CHR ''a''))"
    by (simp add: test_proxy_def Let_def ascii_decode_def l n)
  have 6: "\<not> test_proxy ascii_decode ascii_lower (ProbeResponse 403 (replicate 501 CHR ''a''))"
    by (simp add: test_proxy_def Let_def)
  show ?thesis using 1 2 3 4 5 6 by blast
qed

lemma nprobe_append: "nprobe (xs @ ys) = nprobe xs + nprobe ys"
  by (simp add: nprobe_def)

lemma probed_append: "probed (xs @ ys) = probed xs @ probed ys"
  by (simp add: probed_def)

lemma probed_simps: "probed [] = []" "probed (Probe p # tr) = p # probed tr"
  "probed (PSleep r # tr) = probed tr" "probed (PWrite f c # tr) = probed tr"
  by (simp_all add: probed_def)

lemma probed_probe_steps: "probed (probe_steps a xs) = xs"
  by (induction xs) (simp_all add: probed_def probe_steps_def)

lemma probe_loop_stop:
  "limit a \<le> tested \<Longrightarrow>
   probe_loop decode lower P S a xs (tested, working, tr) = (None, tested, working, tr)"
  by (cases xs) simp_all

lemma probe_loop_step:
  "tested < limit a \<Longrightarrow> S (sleep a) = None \<Longrightarrow>
   probe_loop decode lower P S a (x # xs) (tested, working, tr) =
   probe_loop decode lower P S a xs
     (tested + 1,
      working @ (if test_proxy decode lower (P (nprobe tr) x) then [x] else []),
      tr @ [Probe x, PSleep (sleep a)])"
  by (simp add: Let_def)

lemma probe_loop_raise:
  "tested < limit a \<Longrightarrow> S (sleep a) = Some e \<Longrightarrow>
   probe_loop decode lower P S a (x # xs) (tested, working, tr) =
     (Some e, tested + 1,
      working @ (if test_proxy decode lower (P (nprobe tr) x) then [x] else []),
      tr @ [Probe x])"
  by (simp add: Let_def)

lemma probe_loop_run:
  assumes "S (sleep a) = None"
  shows "probe_loop decode lower P S a xs (tested, working, tr) =
    (None, tested + int (length (take (nat (limit a - tested)) xs)),
     working @ survivors_from decode lower P (nprobe tr) (take (nat (limit a - tested)) xs),
     tr @ probe_steps a (take (nat (limit a - tested)) xs))"
proof (induction xs arbitrary: tested working tr)
  case Nil
  show ?case by (simp add: probe_steps_def)
next
  case (Cons x xs)
  show ?case
  proof (cases "tested < limit a")
    case False
    then have "nat (limit a - tested) = 0" by simp
    then show ?thesis
      using False by (simp add: probe_loop_stop probe_steps_def del: probe_loop.simps)
  next
    case True
    then have k: "nat (limit a - tested) = Suc (nat (limit a - (tested + 1)))" by simp
    have n: "nprobe (tr @ [Probe x, PSleep (sleep a)]) = Suc (nprobe tr)"
      by (simp add: nprobe_def)
    show ?thesis
      unfolding probe_loop_step [where S = S and a = a, OF True assms] Cons.IH k n
      by (simp add: probe_steps_def)
  qed
qed

text \<open>\<open>"\n".join(xs) + "\n"\<close> for a list that is not empty: every element, each
  followed by a newline.\<close>

lemma join_lines_newline:
  "xs \<noteq> [] \<Longrightarrow> join_lines xs @ [CHR 0x0A] = concat (map (\<lambda>x. x @ [CHR 0x0A]) xs)"
proof -
  have "x @ concat (map (\<lambda>y. CHR 0x0A # y) ys) @ [CHR 0x0A] =
      concat (map (\<lambda>x. x @ [CHR 0x0A]) (x # ys))" for x :: string and ys
    by (induction ys arbitrary: x) simp_all
  then show "xs \<noteq> [] \<Longrightarrow> join_lines xs @ [CHR 0x0A] = concat (map (\<lambda>x. x @ [CHR 0x0A]) xs)"
    by (cases xs) (simp_all add: join_lines_def)
qed

lemma proxy_filter_main_run:
  assumes "S (sleep a) = None"
  shows "proxy_filter_main splitlines strip decode lower P S a (Some raw) =
    (let proxies = fetch_proxy_list splitlines strip raw;
         tried = take (nat (limit a)) proxies;
         working = survivors_from decode lower P 0 tried
     in if proxies = [] then (SysExit 1, [])
        else if working \<noteq> []
        then (Returned,
              probe_steps a tried @
              [PWrite (out a) (concat (map (\<lambda>p. p @ [CHR 0x0A]) working))])
        else (SysExit 2, probe_steps a tried))"
  by (simp add: proxy_filter_main_def Let_def probe_loop_run [where S = S and a = a, OF assms] nprobe_def
        join_lines_newline)

lemma proxy_filter_main_idle:
  assumes "limit a \<le> 0" and "fetch_proxy_list splitlines strip raw \<noteq> []"
  shows "proxy_filter_main splitlines strip decode lower P S a (Some raw) = (SysExit 2, [])"
  using assms by (simp add: proxy_filter_main_def Let_def probe_loop_stop del: probe_loop.simps)

lemma proxy_filter_main_raise:
  assumes "S (sleep a) = Some e" and "0 < limit a"
    and "fetch_proxy_list splitlines strip raw = x # xs"
  shows "proxy_filter_main splitlines strip decode lower P S a (Some raw) =
    (Uncaught, [Probe x])"
  using assms
  by (simp add: proxy_filter_main_def Let_def probe_loop_raise del: probe_loop.simps)

lemma demo_fetch:
  "fetch_proxy_list five_lines keep raw = [''p1'', ''good'', ''p3'', ''good'', ''p5'']"
  "fetch_proxy_list no_lines keep raw = []"
  "fetch_proxy_list good_first keep raw = [''good'', ''p2'', ''p3'']"
  by (simp_all add: fetch_proxy_list_def five_lines_def no_lines_def good_first_def keep_def)


lemma demo_pargs_simps:
  "limit (demo_pargs k) = k" "sleep (demo_pargs k) = 1 / 5"
  "out (demo_pargs k) = ''working_proxies.txt''"
  "limit (negative_sleep_pargs k) = k" "sleep (negative_sleep_pargs k) = - 1"
  "out (negative_sleep_pargs k) = ''working_proxies.txt''"
  by (simp_all add: demo_pargs_def negative_sleep_pargs_def)

text \<open>
  C5, as stated, fails: the loop calls \<open>time.sleep\<close> after every probe, and
  \<open>time.sleep\<close> raises on a negative delay. With five candidates, a limit of 3 and a
  delay of -1 the run probes one candidate, not three, and ends there.
\<close>

theorem probe_count_counterexample:
  "fetch_proxy_list five_lines keep [] = [''p1'', ''good'', ''p3'', ''good'', ''p5''] \<and>
   proxy_filter_main five_lines keep ascii_decode ascii_lower demo_probe demo_sleep
     (negative_sleep_pargs 3) (Some []) = (Uncaught, [Probe ''p1'']) \<and>
   probed [Probe ''p1''] = [''p1'']"
proof -
  have s: "demo_sleep (sleep (negative_sleep_pargs 3)) = Some ValueError"
    by (simp add: demo_sleep_def demo_pargs_simps)
  have l: "0 < limit (negative_sleep_pargs 3)"
    by (simp add: demo_pargs_simps)
  show ?thesis
    using proxy_filter_main_raise [where S = demo_sleep and a = "negative_sleep_pargs 3"
        and splitlines = five_lines and strip = keep and raw = "[]" and decode = ascii_decode
        and lower = ascii_lower and P = demo_probe, OF s l demo_fetch(1)]
    by (simp add: demo_fetch probed_simps)
qed

text \<open>
  C5, amended. For every candidate list and limit, and whatever the verdicts are, when
  \<open>time.sleep\<close> accepts the delay between the probes the proxies probed by \<open>main\<close> are
  the first \<open>limit\<close> candidates, in source order (none for a limit below 1): their
  number is the minimum of the limit and the number of candidates. When \<open>time.sleep\<close>
  raises on the delay, the first of those candidates is probed and no other.
\<close>

theorem probe_count:
  "(S (sleep a) = None \<longrightarrow>
      probed (snd (proxy_filter_main splitlines strip decode lower P S a (Some raw))) =
        take (nat (limit a)) (fetch_proxy_list splitlines strip raw) \<and>
      length (probed (snd (proxy_filter_main splitlines strip decode lower P S a (Some raw)))) =
        min (nat (limit a)) (length (fetch_proxy_list splitlines strip raw)) \<and>
      (0 \<le> limit a \<longrightarrow>
        int (length (probed (snd (proxy_filter_main splitlines strip decode lower P S a
          (Some raw))))) =
        min (limit a) (int (length (fetch_proxy_list splitlines strip raw))))) \<and>
   (S (sleep a) \<noteq> None \<longrightarrow>
      probed (snd (proxy_filter_main splitlines strip decode lower P S a (Some raw))) =
        take (min 1 (nat (limit a))) (fetch_proxy_list splitlines strip raw))"
proof (intro conjI impI)
  assume s: "S (sleep a) = None"
  have p: "probed (snd (proxy_filter_main splitlines strip decode lower P S a (Some raw))) =
     take (nat (limit a)) (fetch_proxy_list splitlines strip raw)"
    by (simp add: proxy_filter_main_run [where S = S and a = a, OF s] Let_def probed_append probed_probe_steps
          probed_simps)
  show "probed (snd (proxy_filter_main splitlines strip decode lower P S a (Some raw))) =
     take (nat (limit a)) (fetch_proxy_list splitlines strip raw)"
    by (rule p)
  show "length (probed (snd (proxy_filter_main splitlines strip decode lower P S a (Some raw)))) =
     min (nat (limit a)) (length (fetch_proxy_list splitlines strip raw))"
    unfolding p by simp
  assume "0 \<le> limit a"
  then show "int (length (probed (snd (proxy_filter_main splitlines strip decode lower P S a
          (Some raw))))) =
        min (limit a) (int (length (fetch_proxy_list splitlines strip raw)))"
    unfolding p by (auto simp: min_def)
next
  assume "S (sleep a) \<noteq> None"
  then obtain e where s: "S (sleep a) = Some e" by blast
  show "probed (snd (proxy_filter_main splitlines strip decode lower P S a (Some raw))) =
      take (min 1 (nat (limit a))) (fetch_proxy_list splitlines strip raw)"
  proof (cases "fetch_proxy_list splitlines strip raw")
    case Nil
    then show ?thesis by (simp add: proxy_filter_main_def probed_simps)
  next
    case (Cons x xs)
    show ?thesis
    proof (cases "0 < limit a")
      case True
      then have "min 1 (nat (limit a)) = Suc 0" by simp
      then show ?thesis
        by (simp add: proxy_filter_main_raise [where S = S and a = a, OF s True Cons] Cons probed_simps)
    next
      case False
      then have l: "limit a \<le> 0" by simp
      have "fetch_proxy_list splitlines strip raw \<noteq> []" using Cons by simp
      from proxy_filter_main_idle [OF l this] show ?thesis
        using l by (simp add: probed_simps)
    qed
  qed
qed

theorem probe_count_witness:
  "probed (snd (proxy_filter_main five_lines keep ascii_decode ascii_lower demo_probe demo_sleep
     (demo_pargs 3) (Some []))) = [''p1'', ''good'', ''p3''] \<and>
   int (length (probed (snd (proxy_filter_main five_lines keep ascii_decode ascii_lower demo_probe
     demo_sleep (demo_pargs 3) (Some []))))) = 3 \<and>
   probed (snd (proxy_filter_main five_lines keep ascii_decode ascii_lower demo_probe demo_sleep
     (negative_sleep_pargs 3) (Some []))) = [''p1'']"
  using probe_count [where splitlines = five_lines and strip = keep and decode = ascii_decode
      and lower = ascii_lower and P = demo_probe and S = demo_sleep and a = "demo_pargs 3"
      and raw = "[]"]
    probe_count [where splitlines = five_lines and strip = keep and decode = ascii_decode
      and lower = ascii_lower and P = demo_probe and S = demo_sleep
      and a = "negative_sleep_pargs 3" and raw = "[]"]
  by (simp add: demo_fetch demo_pargs_simps demo_sleep_def)




end
